theory Spec2Isabelle
  imports Complex_Main
begin

section \<open>Numbers and arrays of the notebook\<close>

text \<open>
  The notebook \<^verbatim>\<open>3_EM_Algorithm_Tutorial.ipynb\<close> computes with numpy arrays of
  float64. A float64 is modelled in exact arithmetic: a finite value is a real number
  (no rounding, no overflow or underflow, one zero), and the three special values that
  numpy produces instead of raising (\<open>log 0 = -inf\<close>, \<open>0 * inf = nan\<close>,
  \<open>0 / 0 = nan\<close>) are kept as values of their own. Where a result of the notebook
  depends on the underflow of \<^verbatim>\<open>np.exp\<close>, the statements below say so and are made for
  arguments inside its range (\<open>exp_safe\<close>).
\<close>

datatype float64 = Fin real | PosInf | NegInf | NaN

fun f_neg :: "float64 \<Rightarrow> float64" where
  "f_neg (Fin a) = Fin (- a)"
| "f_neg PosInf = NegInf"
| "f_neg NegInf = PosInf"
| "f_neg NaN = NaN"

fun f_add :: "float64 \<Rightarrow> float64 \<Rightarrow> float64" where
  "f_add (Fin a) (Fin b) = Fin (a + b)"
| "f_add (Fin a) PosInf = PosInf"
| "f_add (Fin a) NegInf = NegInf"
| "f_add (Fin a) NaN = NaN"
| "f_add PosInf (Fin b) = PosInf"
| "f_add PosInf PosInf = PosInf"
| "f_add PosInf NegInf = NaN"
| "f_add PosInf NaN = NaN"
| "f_add NegInf (Fin b) = NegInf"
| "f_add NegInf PosInf = NaN"
| "f_add NegInf NegInf = NegInf"
| "f_add NegInf NaN = NaN"
| "f_add NaN b = NaN"

definition f_sub :: "float64 \<Rightarrow> float64 \<Rightarrow> float64" where
  "f_sub a b = f_add a (f_neg b)"

text \<open>The sign of a product with an infinity; zero times infinity is nan.\<close>

definition inf_times :: "real \<Rightarrow> float64" where
  "inf_times a = (if a = 0 then NaN else if 0 < a then PosInf else NegInf)"

fun f_mul :: "float64 \<Rightarrow> float64 \<Rightarrow> float64" where
  "f_mul (Fin a) (Fin b) = Fin (a * b)"
| "f_mul (Fin a) PosInf = inf_times a"
| "f_mul (Fin a) NegInf = inf_times (- a)"
| "f_mul (Fin a) NaN = NaN"
| "f_mul PosInf (Fin b) = inf_times b"
| "f_mul PosInf PosInf = PosInf"
| "f_mul PosInf NegInf = NegInf"
| "f_mul PosInf NaN = NaN"
| "f_mul NegInf (Fin b) = inf_times (- b)"
| "f_mul NegInf PosInf = NegInf"
| "f_mul NegInf NegInf = PosInf"
| "f_mul NegInf NaN = NaN"
| "f_mul NaN b = NaN"

text \<open>
  numpy's true division of float64: a finite non-zero value over zero is an infinity,
  zero over zero and infinity over infinity are nan; nothing raises.
\<close>

fun f_div :: "float64 \<Rightarrow> float64 \<Rightarrow> float64" where
  "f_div (Fin a) (Fin b) = (if b = 0 then inf_times a else Fin (a / b))"
| "f_div (Fin a) PosInf = Fin 0"
| "f_div (Fin a) NegInf = Fin 0"
| "f_div (Fin a) NaN = NaN"
| "f_div PosInf (Fin b) = (if 0 \<le> b then PosInf else NegInf)"
| "f_div PosInf PosInf = NaN"
| "f_div PosInf NegInf = NaN"
| "f_div PosInf NaN = NaN"
| "f_div NegInf (Fin b) = (if 0 \<le> b then NegInf else PosInf)"
| "f_div NegInf PosInf = NaN"
| "f_div NegInf NegInf = NaN"
| "f_div NegInf NaN = NaN"
| "f_div NaN b = NaN"

text \<open>\<^verbatim>\<open>np.log\<close>: minus infinity at zero, nan below zero.\<close>

fun f_log :: "float64 \<Rightarrow> float64" where
  "f_log (Fin a) = (if 0 < a then Fin (ln a) else if a = 0 then NegInf else NaN)"
| "f_log PosInf = PosInf"
| "f_log NegInf = NaN"
| "f_log NaN = NaN"

text \<open>
  \<^verbatim>\<open>np.exp\<close>, as the exact exponential. In float64 \<^verbatim>\<open>np.exp\<close> returns \<open>0.0\<close> for every
  argument below about \<open>-745.13\<close> and \<open>inf\<close> for every argument above about \<open>709.78\<close>;
  \<open>f_exp\<close> is positive and finite at every finite argument, so the two agree (up to
  rounding) only between these bounds.
\<close>

fun f_exp :: "float64 \<Rightarrow> float64" where
  "f_exp (Fin a) = Fin (exp a)"
| "f_exp PosInf = PosInf"
| "f_exp NegInf = Fin 0"
| "f_exp NaN = NaN"

text \<open>
  The arguments at which \<open>f_exp\<close> is \<^verbatim>\<open>np.exp\<close> up to rounding, with a margin: finite
  values between \<open>-700\<close> and \<open>700\<close>, where the float64 result is a normal number.
\<close>

fun exp_safe :: "float64 \<Rightarrow> bool" where
  "exp_safe (Fin a) = (- 700 \<le> a \<and> a \<le> 700)"
| "exp_safe x = False"

text \<open>The maximum of two values as \<^verbatim>\<open>np.max\<close> takes it: nan wins.\<close>

fun f_max :: "float64 \<Rightarrow> float64 \<Rightarrow> float64" where
  "f_max (Fin a) (Fin b) = Fin (max a b)"
| "f_max (Fin a) PosInf = PosInf"
| "f_max (Fin a) NegInf = Fin a"
| "f_max (Fin a) NaN = NaN"
| "f_max PosInf NaN = NaN"
| "f_max PosInf b = PosInf"
| "f_max NegInf b = b"
| "f_max NaN b = NaN"

text \<open>The comparison \<^verbatim>\<open>a < b\<close>: false whenever an operand is nan.\<close>

fun f_lt :: "float64 \<Rightarrow> float64 \<Rightarrow> bool" where
  "f_lt (Fin a) (Fin b) = (a < b)"
| "f_lt (Fin a) PosInf = True"
| "f_lt NegInf (Fin b) = True"
| "f_lt NegInf PosInf = True"
| "f_lt a b = False"

text \<open>
  \<^verbatim>\<open>.sum()\<close> of a one-dimensional array. Addition in this model is associative and
  commutative (lemmas \<open>f_add_assoc\<close>, \<open>f_add_commute\<close>), so the order in which numpy
  adds the entries does not show.
\<close>

primrec np_sum :: "float64 list \<Rightarrow> float64" where
  "np_sum [] = Fin 0"
| "np_sum (x # xs) = f_add x (np_sum xs)"

text \<open>The exceptions the code can raise, and the error kinds the specification names
  (the source raises none of the latter three).\<close>

datatype error =
    IndexError | ValueError | ZeroDivisionError | AttributeError
  | InvalidShape | InvalidProbability | NumericalDegenerate

text \<open>The first exception of a sequence of computations aborts all of them.\<close>

primrec collect :: "(error + 'a) list \<Rightarrow> error + 'a list" where
  "collect [] = Inr []"
| "collect (r # rs) =
     (case r of Inl e \<Rightarrow> Inl e
      | Inr x \<Rightarrow> (case collect rs of Inl e \<Rightarrow> Inl e | Inr xs \<Rightarrow> Inr (x # xs)))"

text \<open>
  A two-dimensional array carries its shape, so that an array with no rows still has a
  number of columns. One-dimensional arrays are lists.
\<close>

record ndarray2 =
  shape0 :: nat
  shape1 :: nat
  rows :: "float64 list list"

definition wf_nd :: "ndarray2 \<Rightarrow> bool" where
  "wf_nd A = (length (rows A) = shape0 A \<and> list_all (\<lambda>r. length r = shape1 A) (rows A))"

definition nd_map :: "(float64 \<Rightarrow> float64) \<Rightarrow> ndarray2 \<Rightarrow> ndarray2" where
  "nd_map f A = A\<lparr>rows := map (map f) (rows A)\<rparr>"

text \<open>\<^verbatim>\<open>A.sum(1)\<close> and \<^verbatim>\<open>A.sum(0)\<close>.\<close>

definition sum_axis1 :: "ndarray2 \<Rightarrow> float64 list" where
  "sum_axis1 A = map np_sum (rows A)"

definition sum_axis0 :: "ndarray2 \<Rightarrow> float64 list" where
  "sum_axis0 A = map (\<lambda>k. np_sum (map (\<lambda>r. r ! k) (rows A))) [0..<shape1 A]"

text \<open>\<^verbatim>\<open>np.max(A, 1)\<close>: a reduction over an axis of length zero raises ValueError.\<close>

fun max_list :: "float64 \<Rightarrow> float64 list \<Rightarrow> float64" where
  "max_list x [] = x"
| "max_list x (y # ys) = f_max x (max_list y ys)"

definition row_max :: "float64 list \<Rightarrow> error + float64" where
  "row_max r = (case r of [] \<Rightarrow> Inl ValueError | x # xs \<Rightarrow> Inr (max_list x xs))"

definition max_axis1 :: "ndarray2 \<Rightarrow> error + float64 list" where
  "max_axis1 A = (if shape1 A = 0 then Inl ValueError else collect (map row_max (rows A)))"

text \<open>\<^verbatim>\<open>A - v[:,np.newaxis]\<close> and \<^verbatim>\<open>A / v[:,np.newaxis]\<close>, for \<open>v\<close> with one entry
  for each row of \<open>A\<close> (in the source \<open>v\<close> is always a row reduction of \<open>A\<close> itself).\<close>

definition sub_col :: "ndarray2 \<Rightarrow> float64 list \<Rightarrow> ndarray2" where
  "sub_col A v = A\<lparr>rows := map2 (\<lambda>r b. map (\<lambda>x. f_sub x b) r) (rows A) v\<rparr>"

definition div_col :: "ndarray2 \<Rightarrow> float64 list \<Rightarrow> ndarray2" where
  "div_col A v = A\<lparr>rows := map2 (\<lambda>r b. map (\<lambda>x. f_div x b) r) (rows A) v\<rparr>"

text \<open>The product \<^verbatim>\<open>a * b\<close> of two one-dimensional arrays, with numpy's broadcasting:
  equal lengths, or one of them of length one; anything else raises ValueError.\<close>

definition np_multiply :: "float64 list \<Rightarrow> float64 list \<Rightarrow> error + float64 list" where
  "np_multiply a b =
     (if length a = length b then Inr (map2 f_mul a b)
      else if length a = 1 then Inr (map (f_mul (a ! 0)) b)
      else if length b = 1 then Inr (map (\<lambda>x. f_mul x (b ! 0)) a)
      else Inl ValueError)"

text \<open>\<^verbatim>\<open>np.dot(Z.T, X)\<close>: the row counts of \<open>Z\<close> and \<open>X\<close> must agree.\<close>

definition np_dot_T :: "ndarray2 \<Rightarrow> ndarray2 \<Rightarrow> error + ndarray2" where
  "np_dot_T Z X =
     (if shape0 Z \<noteq> shape0 X then Inl ValueError
      else Inr \<lparr>shape0 = shape1 Z, shape1 = shape1 X,
                rows = map (\<lambda>k. map (\<lambda>v. np_sum (map (\<lambda>d. f_mul (rows Z ! d ! k) (rows X ! d ! v))
                                                     [0..<shape0 Z]))
                                     [0..<shape1 X])
                           [0..<shape1 Z]\<rparr>)"

section \<open>The likelihood helper\<close>

text \<open>
  \<^verbatim>\<open>
  def complete_ll(dt_matrix):
      dt_tempZ = dt_matrix - np.max(dt_matrix,1)[:,np.newaxis]
      ll = np.log(np.exp(dt_tempZ).sum(1)).sum()+dt_temp.max(1).sum()
      return ll
  \<close>
  The module-level function reads the notebook's global \<open>dt_temp\<close> in its second
  summand; the global is the first argument of the model.
\<close>

definition complete_ll :: "ndarray2 \<Rightarrow> ndarray2 \<Rightarrow> error + float64" where
  "complete_ll dt_temp dt_matrix =
     (case max_axis1 dt_matrix of Inl e \<Rightarrow> Inl e
      | Inr m \<Rightarrow>
          (let dt_tempZ = sub_col dt_matrix m in
           case max_axis1 dt_temp of Inl e \<Rightarrow> Inl e
           | Inr m' \<Rightarrow>
               Inr (f_add (np_sum (map f_log (sum_axis1 (nd_map f_exp dt_tempZ))))
                          (np_sum m'))))"

section \<open>The class \<open>EM_algo\<close>\<close>

text \<open>The attributes \<open>ll\<close> and \<open>zs\<close> do not exist before the first E-step.\<close>

record em_state =
  D :: nat
  V :: nat
  K :: nat
  data :: ndarray2
  rhos :: "float64 list"
  betas :: ndarray2
  ll_history :: "float64 list"
  ll :: "float64 option"
  zs :: "ndarray2 option"

text \<open>The function nested in \<open>E_step\<close> has the same body; the \<open>dt_temp\<close> it reads is the
  local variable of the enclosing \<open>E_step\<close>.\<close>

definition E_step_complete_ll :: "ndarray2 \<Rightarrow> ndarray2 \<Rightarrow> error + float64" where
  "E_step_complete_ll dt_temp dt_matrix =
     (case max_axis1 dt_matrix of Inl e \<Rightarrow> Inl e
      | Inr m \<Rightarrow>
          (let dt_tempZ = sub_col dt_matrix m in
           case max_axis1 dt_temp of Inl e \<Rightarrow> Inl e
           | Inr m' \<Rightarrow>
               Inr (f_add (np_sum (map f_log (sum_axis1 (nd_map f_exp dt_tempZ))))
                          (np_sum m'))))"

text \<open>
  One entry of \<open>dt_temp\<close>:
  \<^verbatim>\<open>np.log(self.rhos[topic]) + (self.data[doc]*np.log(self.betas[topic])).sum()\<close>.
  Indexing past the end raises IndexError.
\<close>

definition log_weight :: "em_state \<Rightarrow> nat \<Rightarrow> nat \<Rightarrow> error + float64" where
  "log_weight s doc topic =
     (if length (rhos s) \<le> topic then Inl IndexError
      else if length (rows (data s)) \<le> doc then Inl IndexError
      else if length (rows (betas s)) \<le> topic then Inl IndexError
      else (case np_multiply (rows (data s) ! doc) (map f_log (rows (betas s) ! topic)) of
              Inl e \<Rightarrow> Inl e
            | Inr p \<Rightarrow> Inr (f_add (f_log (rhos s ! topic)) (np_sum p))))"

text \<open>The two loops over \<open>range(self.D)\<close> and \<open>range(self.K)\<close> that fill \<open>dt_temp\<close>.\<close>

definition E_step_dt_temp :: "em_state \<Rightarrow> error + ndarray2" where
  "E_step_dt_temp s =
     (case collect (map (\<lambda>doc. collect (map (log_weight s doc) [0..<K s])) [0..<D s]) of
        Inl e \<Rightarrow> Inl e
      | Inr rs \<Rightarrow> Inr \<lparr>shape0 = D s, shape1 = K s, rows = rs\<rparr>)"

text \<open>\<^verbatim>\<open>self.zs = np.exp(dt_temp)/np.exp(dt_temp).sum(1)[:,np.newaxis]\<close>\<close>

definition normalize_rows :: "ndarray2 \<Rightarrow> ndarray2" where
  "normalize_rows A = div_col A (sum_axis1 A)"

definition E_step :: "em_state \<Rightarrow> error + em_state" where
  "E_step s =
     (case E_step_dt_temp s of Inl e \<Rightarrow> Inl e
      | Inr dt_temp \<Rightarrow>
          (case E_step_complete_ll dt_temp dt_temp of Inl e \<Rightarrow> Inl e
           | Inr l \<Rightarrow>
               Inr (s\<lparr>ll := Some l, ll_history := ll_history s @ [l],
                       zs := Some (normalize_rows (nd_map f_exp dt_temp))\<rparr>)))"

text \<open>
  \<^verbatim>\<open>
  def M_step(self):
      self.rhos = self.zs.sum(0)/self.D
      betas_temp = np.dot(self.zs.T,self.data)
      self.betas=betas_temp/betas_temp.sum(1)[:,np.newaxis]
  \<close>
\<close>

definition M_step :: "em_state \<Rightarrow> error + em_state" where
  "M_step s =
     (case zs s of None \<Rightarrow> Inl AttributeError
      | Some z \<Rightarrow>
          (case np_dot_T z (data s) of Inl e \<Rightarrow> Inl e
           | Inr betas_temp \<Rightarrow>
               Inr (s\<lparr>rhos := map (\<lambda>x. f_div x (Fin (real (D s)))) (sum_axis0 z),
                       betas := normalize_rows betas_temp\<rparr>)))"

text \<open>
  \<^verbatim>\<open>
  def __init__(self, data, K=2, prior_rhos=None, prior_betas=None):
      self.D = data.shape[0]
      self.V = data.shape[1]
      self.K = K
      self.data = data
      if prior_rhos==None:
          self.rhos = np.full(self.K, 1/float(self.K))
      else:
          self.rhos = prior_rhos
      if prior_betas==None:
          self.betas = np.random.dirichlet(self.V*[1], self.K)
      else:
          self.betas =prior_betas
      self.ll_history = []
  \<close>
  An optional prior is \<open>None\<close>, a Python list or a numpy array. The test
  \<^verbatim>\<open>prior==None\<close> is true for \<open>None\<close> and false for a list; for an array numpy
  compares elementwise, and the truth value of the resulting array of \<open>False\<close> is
  \<open>False\<close> when it has exactly one element and raises ValueError otherwise. (For an
  array with no element this is numpy from version 2.2 on; earlier versions gave
  \<open>False\<close> with a deprecation warning, and stored the empty prior.)
  \<open>1/float(0)\<close> raises ZeroDivisionError. The draw of \<^verbatim>\<open>np.random.dirichlet\<close> is a
  parameter of the model.
\<close>

datatype 'a pyarg = PyNone | PyList 'a | NdArray 'a

definition nd_size :: "ndarray2 \<Rightarrow> nat" where
  "nd_size A = shape0 A * shape1 A"

definition EM_algo_init ::
  "ndarray2 \<Rightarrow> nat \<Rightarrow> float64 list pyarg \<Rightarrow> ndarray2 pyarg \<Rightarrow> ndarray2 \<Rightarrow> error + em_state" where
  "EM_algo_init dat k prior_rhos prior_betas dirichlet =
     (case (case prior_rhos of
              PyNone \<Rightarrow> (if k = 0 then Inl ZeroDivisionError
                          else Inr (replicate k (Fin (1 / real k))))
            | PyList r \<Rightarrow> Inr r
            | NdArray r \<Rightarrow> (if length r \<noteq> 1 then Inl ValueError else Inr r)) of
        Inl e \<Rightarrow> Inl e
      | Inr r \<Rightarrow>
          (case (case prior_betas of
                   PyNone \<Rightarrow> Inr dirichlet
                 | PyList b \<Rightarrow> Inr b
                 | NdArray b \<Rightarrow> (if nd_size b \<noteq> 1 then Inl ValueError else Inr b)) of
             Inl e \<Rightarrow> Inl e
           | Inr b \<Rightarrow>
               Inr \<lparr>D = shape0 dat, V = shape1 dat, K = k, data = dat, rhos = r, betas = b,
                     ll_history = [], ll = None, zs = None\<rparr>))"

text \<open>
  \<^verbatim>\<open>
  def iterate(self,tolerance=0.001,max_iter = 500):
      count = 0
      while True:
          self.E_step()
          self.M_step()
          if len(self.ll_history)==1:
              continue
          if (self.ll-self.ll_history[-2])<tolerance:
              print("Arrived at target tolerance!")
              break
          if (count>max_iter):
              print("Exceeded max_iterations!")
              break
          count+=1
  \<close>
  The message printed at the \<open>break\<close> is the status the model returns.
\<close>

datatype status = Converged | MaxIterationsReached

text \<open>\<^verbatim>\<open>(self.ll-self.ll_history[-2])<tolerance\<close>\<close>

definition stop_test :: "float64 \<Rightarrow> em_state \<Rightarrow> error + bool" where
  "stop_test tolerance s =
     (case ll s of None \<Rightarrow> Inl AttributeError
      | Some l \<Rightarrow>
          (if length (ll_history s) < 2 then Inl IndexError
           else Inr (f_lt (f_sub l (ll_history s ! (length (ll_history s) - 2))) tolerance)))"

text \<open>One pass of the loop body up to the tests: \<open>self.E_step(); self.M_step()\<close>.\<close>

definition EM_pair :: "em_state \<Rightarrow> error + em_state" where
  "EM_pair s = (case E_step s of Inl e \<Rightarrow> Inl e | Inr s1 \<Rightarrow> M_step s1)"

lemma E_step_history:
  "E_step s = Inr s1 \<Longrightarrow> length (ll_history s1) = Suc (length (ll_history s))"
  by (auto simp: E_step_def split: sum.splits)

lemma M_step_history: "M_step s1 = Inr s2 \<Longrightarrow> ll_history s2 = ll_history s1"
  by (auto simp: M_step_def split: sum.splits option.splits)

lemma EM_pair_history:
  "EM_pair s = Inr s2 \<Longrightarrow> length (ll_history s2) = Suc (length (ll_history s))"
  by (auto simp: EM_pair_def E_step_history M_step_history split: sum.splits)

function iterate_loop :: "float64 \<Rightarrow> int \<Rightarrow> int \<Rightarrow> em_state \<Rightarrow> error + status \<times> em_state" where
  "iterate_loop tolerance max_iter count s =
     (case EM_pair s of Inl e \<Rightarrow> Inl e
      | Inr s2 \<Rightarrow>
          (if length (ll_history s2) = 1 then iterate_loop tolerance max_iter count s2
           else (case stop_test tolerance s2 of Inl e \<Rightarrow> Inl e
                 | Inr stop \<Rightarrow>
                     (if stop then Inr (Converged, s2)
                      else if count > max_iter then Inr (MaxIterationsReached, s2)
                      else iterate_loop tolerance max_iter (count + 1) s2))))"
  by pat_completeness auto
termination
proof (relation "measure (\<lambda>(tolerance, max_iter, count, s).
          2 * nat (max_iter + 1 - count) + (if ll_history s = [] then 1 else 0))")
  show "wf (measure (\<lambda>(tolerance, max_iter, count, s).
          2 * nat (max_iter + 1 - count) + (if ll_history s = [] then 1 else 0)))"
    by simp
next
  fix tolerance :: float64 and max_iter count :: int and s s2 :: em_state
  assume "EM_pair s = Inr s2" and "length (ll_history s2) = 1"
  then have "ll_history s = []" and "ll_history s2 \<noteq> []"
    using EM_pair_history [of s s2] by auto
  then show "((tolerance, max_iter, count, s2), (tolerance, max_iter, count, s))
        \<in> measure (\<lambda>(tolerance, max_iter, count, s).
          2 * nat (max_iter + 1 - count) + (if ll_history s = [] then 1 else 0))"
    by simp
next
  fix tolerance :: float64 and max_iter count :: int and s s2 :: em_state and stop :: bool
  assume "EM_pair s = Inr s2" and "\<not> count > max_iter"
  then have "ll_history s2 \<noteq> []"
    using EM_pair_history [of s s2] by auto
  with \<open>\<not> count > max_iter\<close>
  show "((tolerance, max_iter, count + 1, s2), (tolerance, max_iter, count, s))
        \<in> measure (\<lambda>(tolerance, max_iter, count, s).
          2 * nat (max_iter + 1 - count) + (if ll_history s = [] then 1 else 0))"
    by auto
qed

declare iterate_loop.simps [simp del]

definition iterate :: "float64 \<Rightarrow> int \<Rightarrow> em_state \<Rightarrow> error + status \<times> em_state" where
  "iterate tolerance max_iter s = iterate_loop tolerance max_iter 0 s"

section \<open>The formulas of the specification\<close>

text \<open>
  The specification states its formulas over real matrices. A real matrix is a list of
  rows; \<open>fin_nd\<close> is the array of the finite float64 values of a real matrix.
\<close>

definition fin_nd :: "nat \<Rightarrow> nat \<Rightarrow> real list list \<Rightarrow> ndarray2" where
  "fin_nd n m M = \<lparr>shape0 = n, shape1 = m, rows = map (map Fin) M\<rparr>"

definition row_lse :: "real list \<Rightarrow> real" where
  "row_lse r = Max (set r) + ln (\<Sum>x\<leftarrow>r. exp (x - Max (set r)))"

definition is_matrix :: "nat \<Rightarrow> nat \<Rightarrow> 'a list list \<Rightarrow> bool" where
  "is_matrix n m M = (length M = n \<and> list_all (\<lambda>r. length r = m) M)"

definition spec_L :: "real list list \<Rightarrow> real list \<Rightarrow> real list list \<Rightarrow> nat \<Rightarrow> nat \<Rightarrow> real" where
  "spec_L X rho beta d k = ln (rho ! k) + (\<Sum>v<length (X ! d). X ! d ! v * ln (beta ! k ! v))"

definition spec_B :: "real list list \<Rightarrow> real list \<Rightarrow> real list list \<Rightarrow> nat \<Rightarrow> real" where
  "spec_B X rho beta d = Max (spec_L X rho beta d ` {..<length rho})"

definition spec_ll :: "real list list \<Rightarrow> real list \<Rightarrow> real list list \<Rightarrow> real" where
  "spec_ll X rho beta =
     (\<Sum>d<length X. spec_B X rho beta d
                      + ln (\<Sum>k<length rho. exp (spec_L X rho beta d k - spec_B X rho beta d)))"

definition spec_L_matrix :: "real list list \<Rightarrow> real list \<Rightarrow> real list list \<Rightarrow> real list list" where
  "spec_L_matrix X rho beta =
     map (\<lambda>d. map (\<lambda>k. spec_L X rho beta d k) [0..<length rho]) [0..<length X]"

definition spec_complete_ll :: "real list list \<Rightarrow> real" where
  "spec_complete_ll M = (\<Sum>r\<leftarrow>M. row_lse r)"



text \<open>
  The M-step of the specification: \<open>rho_k = (\<Sum>d. Z[d,k]) / D\<close>, \<open>raw = Z\<^sup>T \<sqdot> X\<close>, and
  \<open>beta\<close> the rows of \<open>raw\<close> divided by their sums.
\<close>

definition spec_rho :: "real list list \<Rightarrow> nat \<Rightarrow> real list" where
  "spec_rho Z k = map (\<lambda>j. (\<Sum>d<length Z. Z ! d ! j) / real (length Z)) [0..<k]"

definition spec_raw :: "real list list \<Rightarrow> real list list \<Rightarrow> nat \<Rightarrow> nat \<Rightarrow> real list list" where
  "spec_raw Z X k v = map (\<lambda>j. map (\<lambda>w. \<Sum>d<length Z. Z ! d ! j * X ! d ! w) [0..<v]) [0..<k]"

definition spec_beta :: "real list list \<Rightarrow> real list list \<Rightarrow> nat \<Rightarrow> nat \<Rightarrow> real list list" where
  "spec_beta Z X k v = map (\<lambda>r. map (\<lambda>x. x / sum_list r) r) (spec_raw Z X k v)"

text \<open>States at which the M-step is evaluated below.\<close>

definition c2_witness_state :: em_state where
  "c2_witness_state = \<lparr>D = 2, V = 1, K = 2, data = fin_nd 2 1 [[1], [2]], rhos = map Fin [1/2, 1/2],
       betas = fin_nd 2 1 [[1], [1]], ll_history = [Fin 0], ll = Some (Fin 0),
       zs = Some (fin_nd 2 2 [[1, 0], [1/4, 3/4]])\<rparr>"

definition c2_state :: em_state where
  "c2_state = \<lparr>D = 1, V = 1, K = 2, data = fin_nd 1 1 [[1]], rhos = map Fin [1/2, 1/2],
       betas = fin_nd 2 1 [[1], [1]], ll_history = [Fin 0], ll = Some (Fin 0),
       zs = Some (fin_nd 1 2 [[1, 0]])\<rparr>"

definition c6_E_state :: em_state where
  "c6_E_state = \<lparr>D = 1, V = 1, K = 1, data = fin_nd 1 1 [[1]], rhos = [Fin 0],
       betas = fin_nd 1 1 [[1]], ll_history = [], ll = None, zs = None\<rparr>"

definition c6_M_state :: em_state where
  "c6_M_state = \<lparr>D = 1, V = 1, K = 1, data = fin_nd 1 1 [[0]], rhos = [Fin 1],
       betas = fin_nd 1 1 [[1]], ll_history = [Fin 0], ll = Some (Fin 0),
       zs = Some (fin_nd 1 1 [[1]])\<rparr>"

text \<open>\<open>n\<close> completed pairs of an E-step and an M-step, as the loop of \<open>iterate\<close> runs them.\<close>

primrec EM_pairs :: "nat \<Rightarrow> em_state \<Rightarrow> error + em_state" where
  "EM_pairs 0 s = Inr s"
| "EM_pairs (Suc n) s = (case EM_pair s of Inl e \<Rightarrow> Inl e | Inr s' \<Rightarrow> EM_pairs n s')"

text \<open>States from which \<open>iterate\<close> is run below: a fixed point of the E-step and the
  M-step, and the same data with the list prior \<open>rho = [2]\<close>.\<close>

definition c4_state :: em_state where
  "c4_state = \<lparr>D = 1, V = 1, K = 1, data = fin_nd 1 1 [[1]], rhos = [Fin 1],
       betas = fin_nd 1 1 [[1]], ll_history = [], ll = None, zs = None\<rparr>"

definition c5_state :: em_state where
  "c5_state = \<lparr>D = 1, V = 1, K = 1, data = fin_nd 1 1 [[1]], rhos = [Fin 2],
       betas = fin_nd 1 1 [[1]], ll_history = [], ll = None, zs = None\<rparr>"

text \<open>The responsibilities of the specification: \<open>Z[d,k] = exp (L[d,k]) / \<Sum>j. exp (L[d,j])\<close>.\<close>

definition spec_Z :: "real list list \<Rightarrow> real list \<Rightarrow> real list list \<Rightarrow> real list list" where
  "spec_Z X rho beta = map (\<lambda>r. map (\<lambda>x. exp x / (\<Sum>y\<leftarrow>r. exp y)) r) (spec_L_matrix X rho beta)"

text \<open>
  A state that holds a valid fit: a non-negative count matrix of shape \<open>n \<times> v\<close> in which
  every vocabulary term occurs in some document, and parameters \<open>rho\<close> (length \<open>k\<close>) and
  \<open>beta\<close> (shape \<open>k \<times> v\<close>) with positive entries, \<open>rho\<close> and every row of \<open>beta\<close> summing
  to one. (Then there is a topic, a term and a document: lemma \<open>valid_state_nonempty\<close>.)
\<close>

definition valid_state ::
  "real list list \<Rightarrow> nat \<Rightarrow> nat \<Rightarrow> nat \<Rightarrow> em_state \<Rightarrow> real list \<Rightarrow> real list list \<Rightarrow> bool" where
  "valid_state X n v k s rho beta =
     (D s = n \<and> K s = k
      \<and> is_matrix n v X \<and> data s = fin_nd n v X
      \<and> list_all (list_all (\<lambda>x. 0 \<le> x)) X \<and> (\<forall>w<v. \<exists>d<n. 0 < X ! d ! w)
      \<and> length rho = k \<and> rhos s = map Fin rho
      \<and> list_all (\<lambda>x. 0 < x) rho \<and> sum_list rho = 1
      \<and> is_matrix k v beta \<and> betas s = fin_nd k v beta
      \<and> list_all (list_all (\<lambda>x. 0 < x)) beta \<and> list_all (\<lambda>r. sum_list r = 1) beta)"

text \<open>The comparison \<^verbatim>\<open>a <= b\<close> of two floats: false whenever an operand is nan.\<close>

definition f_le :: "float64 \<Rightarrow> float64 \<Rightarrow> bool" where
  "f_le a b = (a \<noteq> NaN \<and> b \<noteq> NaN \<and> \<not> f_lt b a)"

text \<open>
  Every log-weight that the E-step computes from a state is in the range of \<^verbatim>\<open>np.exp\<close>.
\<close>

definition log_weights_in_range :: "em_state \<Rightarrow> bool" where
  "log_weights_in_range s =
     (case E_step_dt_temp s of Inl e \<Rightarrow> False
      | Inr L \<Rightarrow> list_all (list_all exp_safe) (rows L))"

text \<open>States from which the trajectory is followed below: a \<open>beta\<close> prior that is not
  normalised, a vocabulary term that occurs in no document (and the all-nan state that
  run reaches), and a valid fit (with the state it reaches after one pass, a fixed point
  of the two steps, for a trajectory \<open>h\<close>).\<close>

definition c8_state :: em_state where
  "c8_state = \<lparr>D = 1, V = 1, K = 1, data = fin_nd 1 1 [[1]], rhos = [Fin 1],
       betas = fin_nd 1 1 [[2]], ll_history = [], ll = None, zs = None\<rparr>"

definition c8_zero_column_state :: em_state where
  "c8_zero_column_state = \<lparr>D = 1, V = 2, K = 1, data = fin_nd 1 2 [[1, 0]], rhos = [Fin 1],
       betas = fin_nd 1 2 [[1/2, 1/2]], ll_history = [], ll = None, zs = None\<rparr>"

definition c8_nan_state :: "float64 list \<Rightarrow> em_state" where
  "c8_nan_state h = \<lparr>D = 1, V = 2, K = 1, data = fin_nd 1 2 [[1, 0]], rhos = [NaN],
       betas = \<lparr>shape0 = 1, shape1 = 2, rows = [[NaN, NaN]]\<rparr>, ll_history = h, ll = Some NaN,
       zs = Some \<lparr>shape0 = 1, shape1 = 1, rows = [[NaN]]\<rparr>\<rparr>"

definition c8_range_state :: em_state where
  "c8_range_state = \<lparr>D = 2, V = 2, K = 2, data = fin_nd 2 2 [[1, 0], [0, 1]],
       rhos = map Fin [1/2, 1/2], betas = fin_nd 2 2 [[1/4, 3/4], [1/4, 3/4]],
       ll_history = [], ll = None, zs = None\<rparr>"

definition c8_range_fixed :: "float64 list \<Rightarrow> em_state" where
  "c8_range_fixed h = \<lparr>D = 2, V = 2, K = 2, data = fin_nd 2 2 [[1, 0], [0, 1]],
       rhos = map Fin [1/2, 1/2], betas = fin_nd 2 2 [[1/2, 1/2], [1/2, 1/2]],
       ll_history = h, ll = Some (last h),
       zs = Some (fin_nd 2 2 [[1/2, 1/2], [1/2, 1/2]])\<rparr>"

section \<open>Finite arrays\<close>

text \<open>On arrays of finite values the float64 operations are the operations on reals.\<close>

lemma fin_nd_wf: "is_matrix n m M \<Longrightarrow> wf_nd (fin_nd n m M)"
  by (simp add: wf_nd_def is_matrix_def fin_nd_def list_all_iff)

lemma f_add_commute: "f_add a b = f_add b a"
  by (cases a; cases b) simp_all

lemma f_add_assoc: "f_add (f_add a b) c = f_add a (f_add b c)"
  by (cases a; cases b; cases c) simp_all

lemma np_sum_Fin: "np_sum (map Fin xs) = Fin (sum_list xs)"
  by (induction xs) simp_all

lemma np_sum_Fin_comp: "np_sum (map (Fin \<circ> f) xs) = Fin (\<Sum>x\<leftarrow>xs. f x)"
  by (induction xs) simp_all

lemma collect_map_Inr:
  "(\<And>x. x \<in> set xs \<Longrightarrow> f x = Inr (g x)) \<Longrightarrow> collect (map f xs) = Inr (map g xs)"
  by (induction xs) simp_all

lemma max_list_Fin: "max_list (Fin x) (map Fin xs) = Fin (Max (set (x # xs)))"
proof (induction xs arbitrary: x)
  case Nil
  then show ?case by simp
next
  case (Cons y ys)
  have "Max (set (x # y # ys)) = max x (Max (set (y # ys)))"
    by (simp add: Max_insert)
  with Cons show ?case by simp
qed

lemma row_max_Fin: "r \<noteq> [] \<Longrightarrow> row_max (map Fin r) = Inr (Fin (Max (set r)))"
  by (cases r) (simp_all add: row_max_def max_list_Fin del: set_simps)

lemma max_axis1_fin:
  assumes "0 < m" and "\<And>r. r \<in> set M \<Longrightarrow> length r = m"
  shows "max_axis1 (fin_nd n m M) = Inr (map (\<lambda>r. Fin (Max (set r))) M)"
proof -
  have "collect (map row_max (map (map Fin) M)) = Inr (map (\<lambda>r. Fin (Max (set r))) M)"
    unfolding map_map
  proof (rule collect_map_Inr)
    fix r assume "r \<in> set M"
    then have "r \<noteq> []" using assms by fastforce
    then show "(row_max \<circ> map Fin) r = Inr (Fin (Max (set r)))"
      by (simp add: row_max_Fin)
  qed
  with assms(1) show ?thesis by (simp add: max_axis1_def fin_nd_def)
qed

lemma sum_exp_nonneg: "0 \<le> (\<Sum>x\<leftarrow>r. exp (x - (b::real)))"
  by (induction r) simp_all

lemma sum_exp_pos: "r \<noteq> [] \<Longrightarrow> 0 < (\<Sum>x\<leftarrow>r. exp (x - (b::real)))"
  using sum_exp_nonneg [where r = "tl r" and b = b] by (cases r) (simp_all add: add_pos_nonneg)

lemma complete_ll_fin:
  assumes "0 < m" and "\<And>r. r \<in> set M \<Longrightarrow> length r = m"
  shows "complete_ll (fin_nd n m M) (fin_nd n m M) = Inr (Fin (\<Sum>r\<leftarrow>M. row_lse r))"
proof -
  have ne: "r \<noteq> []" if "r \<in> set M" for r using assms that by fastforce
  have rows_Z: "rows (nd_map f_exp (sub_col (fin_nd n m M) (map (\<lambda>r. Fin (Max (set r))) M)))
      = map (\<lambda>r. map (\<lambda>x. Fin (exp (x - Max (set r)))) r) M"
    by (simp add: nd_map_def sub_col_def fin_nd_def map2_map_map f_sub_def zip_same_conv_map comp_def)
  have "map f_log (sum_axis1 (nd_map f_exp (sub_col (fin_nd n m M) (map (\<lambda>r. Fin (Max (set r))) M))))
      = map (\<lambda>r. Fin (ln (\<Sum>x\<leftarrow>r. exp (x - Max (set r))))) M"
    unfolding sum_axis1_def rows_Z map_map comp_def
  proof (rule map_cong [OF refl])
    fix r assume "r \<in> set M"
    then have "0 < (\<Sum>x\<leftarrow>r. exp (x - Max (set r)))" using ne sum_exp_pos by blast
    moreover have "np_sum (map (\<lambda>x. Fin (exp (x - Max (set r)))) r) = Fin (\<Sum>x\<leftarrow>r. exp (x - Max (set r)))"
      using np_sum_Fin [of "map (\<lambda>x. exp (x - Max (set r))) r"] by (simp add: comp_def)
    ultimately show "f_log (np_sum (map (\<lambda>x. Fin (exp (x - Max (set r)))) r)) = Fin (ln (\<Sum>x\<leftarrow>r. exp (x - Max (set r))))"
      by simp
  qed
  moreover have "np_sum (map (\<lambda>r. Fin (f r)) M) = Fin (\<Sum>r\<leftarrow>M. f r)" for f :: "real list \<Rightarrow> real"
    using np_sum_Fin [of "map f M"] by (simp add: comp_def)
  ultimately show ?thesis
    using max_axis1_fin [where n = n, OF assms]
    by (simp add: complete_ll_def row_lse_def sum_list_addf add.commute)
qed

lemma sum_list_upt: "(\<Sum>i\<leftarrow>[0..<n]. f i) = (\<Sum>i<n. (f i :: real))"
  by (simp add: interv_sum_list_conv_sum_set_nat atLeast0LessThan)

lemma sum_list_map2_nth:
  assumes "length xs = length ys"
  shows "(\<Sum>p\<leftarrow>zip xs ys. f (fst p) (snd p)) = (\<Sum>i<length xs. (f (xs ! i) (ys ! i) :: real))"
proof -
  have "map (\<lambda>p. f (fst p) (snd p)) (zip xs ys) = map (\<lambda>i. f (xs ! i) (ys ! i)) [0..<length xs]"
    using assms by (intro nth_equalityI) simp_all
  then show ?thesis by (simp add: sum_list_upt)
qed

lemma map_f_log_Fin:
  "list_all (\<lambda>x. 0 < x) b \<Longrightarrow> map f_log (map Fin b) = map Fin (map ln b)"
  by (induction b) simp_all

lemma map2_f_mul_Fin: "map2 f_mul (map Fin x) (map Fin y) = map Fin (map2 (*) x y)"
  by (auto simp: zip_map_map)

lemma log_weight_fin:
  assumes X: "is_matrix (D s) v X" "data s = fin_nd (D s) v X"
    and rho: "length rho = K s" "list_all (\<lambda>x. 0 < x) rho" "rhos s = map Fin rho"
    and beta: "is_matrix (K s) v beta" "list_all (list_all (\<lambda>x. 0 < x)) beta"
      "betas s = fin_nd (K s) v beta"
    and d: "d < D s" and k: "k < K s"
  shows "log_weight s d k = Inr (Fin (spec_L X rho beta d k))"
proof -
  have lX: "length X = D s" and lXd: "length (X ! d) = v"
    using X d by (auto simp: is_matrix_def list_all_length)
  have lb: "length beta = K s" and lbk: "length (beta ! k) = v"
    and pos: "list_all (\<lambda>x. 0 < x) (beta ! k)"
    using beta k by (auto simp: is_matrix_def list_all_length)
  have rk: "0 < rho ! k" using rho k by (auto simp: list_all_length)
  have "np_multiply (map Fin (X ! d)) (map f_log (map Fin (beta ! k)))
      = Inr (map Fin (map2 (*) (X ! d) (map ln (beta ! k))))"
    unfolding map_f_log_Fin [OF pos]
    by (simp add: np_multiply_def lXd lbk map2_f_mul_Fin del: map_map)
  moreover have "sum_list (map2 (*) (X ! d) (map ln (beta ! k)))
      = (\<Sum>v<length (X ! d). X ! d ! v * ln (beta ! k ! v))"
    using sum_list_map2_nth [of "X ! d" "map ln (beta ! k)" "(*)"] lXd lbk
    by (simp add: case_prod_unfold)
  ultimately show ?thesis
    using d k rk lX lb rho
    by (simp add: log_weight_def X(2) beta(3) fin_nd_def np_sum_Fin_comp spec_L_def)
qed

lemma E_step_dt_temp_fin:
  assumes X: "is_matrix (D s) v X" "data s = fin_nd (D s) v X"
    and rho: "length rho = K s" "list_all (\<lambda>x. 0 < x) rho" "rhos s = map Fin rho"
    and beta: "is_matrix (K s) v beta" "list_all (list_all (\<lambda>x. 0 < x)) beta"
      "betas s = fin_nd (K s) v beta"
  shows "E_step_dt_temp s = Inr (fin_nd (D s) (K s) (spec_L_matrix X rho beta))"
proof -
  have row: "collect (map (log_weight s d) [0..<K s])
      = Inr (map (\<lambda>k. Fin (spec_L X rho beta d k)) [0..<K s])" if "d < D s" for d
    by (rule collect_map_Inr) (use that log_weight_fin [OF assms] in simp)
  have "collect (map (\<lambda>doc. collect (map (log_weight s doc) [0..<K s])) [0..<D s])
      = Inr (map (\<lambda>d. map (\<lambda>k. Fin (spec_L X rho beta d k)) [0..<K s]) [0..<D s])"
    by (rule collect_map_Inr) (use row in simp)
  moreover have "length X = D s" using X by (simp add: is_matrix_def)
  ultimately show ?thesis
    by (simp add: E_step_dt_temp_def fin_nd_def spec_L_matrix_def rho(1) comp_def)
qed

lemma spec_ll_matrix:
  assumes "0 < length rho"
  shows "(\<Sum>r\<leftarrow>spec_L_matrix X rho beta. row_lse r) = spec_ll X rho beta"
proof -
  have "row_lse (map (spec_L X rho beta d) [0..<length rho])
      = spec_B X rho beta d
        + ln (\<Sum>k<length rho. exp (spec_L X rho beta d k - spec_B X rho beta d))" for d
    by (simp add: row_lse_def spec_B_def atLeast0LessThan comp_def sum_list_upt)
  then show ?thesis
    by (simp add: spec_L_matrix_def spec_ll_def comp_def sum_list_upt)
qed

section \<open>The E-step\<close>

text \<open>
  C1. For a count matrix \<open>X\<close> of shape \<open>D \<times> V\<close>, \<open>rho\<close> of length \<open>K\<close> and \<open>beta\<close> of shape
  \<open>K \<times> V\<close> with positive entries (and \<open>K\<close> positive, so that the row maximum exists), one
  call of \<open>E_step\<close> fills \<open>dt_temp\<close> with \<open>L[d,k] = log(rho[k]) + \<Sum>v. X[d,v] * log(beta[k,v])\<close>,
  computes the log-likelihood \<open>\<Sum>d. (B d + log (\<Sum>k. exp (L[d,k] - B d)))\<close> with
  \<open>B d = max k. L[d,k]\<close>, stores it in \<open>ll\<close> and appends exactly that value to
  \<open>ll_history\<close>.
\<close>

theorem E_step_log_likelihood:
  assumes "0 < K s"
    and "is_matrix (D s) v X" and "data s = fin_nd (D s) v X"
    and "length rho = K s" and "list_all (\<lambda>x. 0 < x) rho" and "rhos s = map Fin rho"
    and "is_matrix (K s) v beta" and "list_all (list_all (\<lambda>x. 0 < x)) beta"
    and "betas s = fin_nd (K s) v beta"
  shows "E_step_dt_temp s = Inr (fin_nd (D s) (K s) (spec_L_matrix X rho beta))
    \<and> (\<exists>s'. E_step s = Inr s' \<and> ll s' = Some (Fin (spec_ll X rho beta))
          \<and> ll_history s' = ll_history s @ [Fin (spec_ll X rho beta)])"
proof -
  have dt: "E_step_dt_temp s = Inr (fin_nd (D s) (K s) (spec_L_matrix X rho beta))"
    by (rule E_step_dt_temp_fin) fact+
  have "\<And>r. r \<in> set (spec_L_matrix X rho beta) \<Longrightarrow> length r = K s"
    using assms(4) by (auto simp: spec_L_matrix_def)
  then have "E_step_complete_ll (fin_nd (D s) (K s) (spec_L_matrix X rho beta))
        (fin_nd (D s) (K s) (spec_L_matrix X rho beta))
      = Inr (Fin (spec_ll X rho beta))"
    using complete_ll_fin [OF assms(1), of "spec_L_matrix X rho beta" "D s"]
      spec_ll_matrix [of rho X beta] assms(1,4)
    by (simp add: E_step_complete_ll_def complete_ll_def)
  with dt show ?thesis by (simp add: E_step_def)
qed

theorem E_step_log_likelihood_witness:
  "E_step_dt_temp \<lparr>D = 1, V = 2, K = 2,
        data = fin_nd 1 2 [[1, 0]], rhos = map Fin [1/2, 1/2],
        betas = fin_nd 2 2 [[1/2, 1/2], [1/4, 3/4]],
        ll_history = [], ll = None, zs = None\<rparr>
      = Inr (fin_nd 1 2 (spec_L_matrix [[1, 0]] [1/2, 1/2] [[1/2, 1/2], [1/4, 3/4]]))
    \<and> (\<exists>s'. E_step \<lparr>D = 1, V = 2, K = 2,
        data = fin_nd 1 2 [[1, 0]], rhos = map Fin [1/2, 1/2],
        betas = fin_nd 2 2 [[1/2, 1/2], [1/4, 3/4]],
        ll_history = [], ll = None, zs = None\<rparr> = Inr s'
       \<and> ll s' = Some (Fin (spec_ll [[1, 0]] [1/2, 1/2] [[1/2, 1/2], [1/4, 3/4]]))
       \<and> ll_history s' = [Fin (spec_ll [[1, 0]] [1/2, 1/2] [[1/2, 1/2], [1/4, 3/4]])])"
  using E_step_log_likelihood [of "\<lparr>D = 1, V = 2, K = 2,
        data = fin_nd 1 2 [[1, 0]], rhos = map Fin [1/2, 1/2],
        betas = fin_nd 2 2 [[1/2, 1/2], [1/4, 3/4]],
        ll_history = [], ll = None, zs = None\<rparr>" 2 "[[1, 0]]" "[1/2, 1/2]"
        "[[1/2, 1/2], [1/4, 3/4]]"]
  by (simp add: is_matrix_def)

section \<open>The likelihood helper and its enclosing variable\<close>

text \<open>
  C9. The claim is that \<open>complete_ll(M)\<close> depends on \<open>M\<close> only and returns
  \<open>\<Sum>d. (max k. M[d,k]) + log (\<Sum>k. exp (M[d,k] - max k. M[d,k]))\<close>. The module-level function
  takes its second summand from the global \<open>dt_temp\<close>: with the global holding \<open>[[0]]\<close>,
  \<open>complete_ll([[1]])\<close> returns \<open>0\<close>, where the formula gives \<open>1\<close>, the value the same
  call returns when the global holds \<open>[[1]]\<close>.
\<close>

theorem complete_ll_reads_global_dt_temp:
  "complete_ll (fin_nd 1 1 [[0]]) (fin_nd 1 1 [[1]]) = Inr (Fin 0)
    \<and> complete_ll (fin_nd 1 1 [[1]]) (fin_nd 1 1 [[1]]) = Inr (Fin 1)
    \<and> spec_complete_ll [[1]] = 1"
  by (simp add: complete_ll_def fin_nd_def max_axis1_def row_max_def sub_col_def nd_map_def
      sum_axis1_def f_sub_def spec_complete_ll_def row_lse_def)

section \<open>The constructor\<close>

text \<open>
  C10. When \<open>prior_rhos\<close> is a numpy array with at least two entries, or \<open>prior_betas\<close> is a
  numpy array with more than one element, the constructor raises an exception instead of
  storing the prior: the test \<^verbatim>\<open>prior==None\<close> has no truth value.
\<close>

theorem init_array_prior_raises:
  assumes "(\<exists>r. prior_rhos = NdArray r \<and> 2 \<le> length r)
         \<or> (\<exists>b. prior_betas = NdArray b \<and> 1 < nd_size b)"
  shows "\<exists>e. EM_algo_init dat k prior_rhos prior_betas dirichlet = Inl e"
  using assms
  by (auto simp: EM_algo_init_def split: pyarg.splits sum.splits)

theorem init_array_prior_raises_witness:
  "EM_algo_init (fin_nd 1 1 [[1]]) 2 (NdArray [Fin (1/2), Fin (1/2)]) PyNone
      (fin_nd 2 1 [[1], [1]]) = Inl ValueError
   \<and> (\<exists>e. EM_algo_init (fin_nd 1 1 [[1]]) 2 PyNone (NdArray (fin_nd 2 1 [[1], [1]]))
      (fin_nd 2 1 [[1], [1]]) = Inl e)"
  using init_array_prior_raises [of "NdArray [Fin (1/2), Fin (1/2)]" PyNone
      "fin_nd 1 1 [[1]]" 2 "fin_nd 2 1 [[1], [1]]"]
    init_array_prior_raises [of PyNone "NdArray (fin_nd 2 1 [[1], [1]])"
      "fin_nd 1 1 [[1]]" 2 "fin_nd 2 1 [[1], [1]]"]
  by (simp add: EM_algo_init_def nd_size_def fin_nd_def)

text \<open>
  C7, as claimed: construction fails with InvalidShape for a \<open>rho\<close> whose length is not
  \<open>K\<close> and with InvalidProbability for a negative entry or a row that does not sum to one.
  The constructor has no validation: a list prior of length three with a negative entry
  and sum four is accepted for \<open>K = 2\<close>, and so is a \<open>beta\<close> of shape \<open>1 \<times> 2\<close>.
\<close>

theorem init_accepts_invalid_prior:
  "EM_algo_init (fin_nd 1 1 [[1]]) 2 (PyList [Fin 2, Fin (- 1), Fin 3])
      (PyList (fin_nd 1 2 [[5, - 4]])) (fin_nd 2 1 [[1], [1]])
    = Inr \<lparr>D = 1, V = 1, K = 2, data = fin_nd 1 1 [[1]],
           rhos = [Fin 2, Fin (- 1), Fin 3], betas = fin_nd 1 2 [[5, - 4]],
           ll_history = [], ll = None, zs = None\<rparr>"
  by (simp add: EM_algo_init_def fin_nd_def)

text \<open>
  C7, amended: the constructor validates nothing. It never fails with InvalidShape or
  InvalidProbability; whenever it returns, an explicitly supplied prior is stored
  unchanged (never renormalised); and priors supplied as lists are always accepted.
\<close>

theorem init_stores_prior_unvalidated:
  "EM_algo_init dat k prior_rhos prior_betas dirichlet \<noteq> Inl InvalidShape
   \<and> EM_algo_init dat k prior_rhos prior_betas dirichlet \<noteq> Inl InvalidProbability
   \<and> (\<forall>s. EM_algo_init dat k prior_rhos prior_betas dirichlet = Inr s \<longrightarrow>
         (\<forall>r. prior_rhos = PyList r \<or> prior_rhos = NdArray r \<longrightarrow> rhos s = r)
       \<and> (\<forall>b. prior_betas = PyList b \<or> prior_betas = NdArray b \<longrightarrow> betas s = b))
   \<and> (\<forall>r b. prior_rhos = PyList r \<and> prior_betas = PyList b \<longrightarrow>
         (\<exists>s. EM_algo_init dat k prior_rhos prior_betas dirichlet = Inr s))"
  by (auto simp: EM_algo_init_def split: pyarg.splits sum.splits if_splits)

theorem init_stores_prior_unvalidated_witness:
  "EM_algo_init (fin_nd 1 1 [[1]]) 1 (PyList [Fin 1]) (NdArray (fin_nd 1 1 [[1]]))
      (fin_nd 1 1 [[1]]) \<noteq> Inl InvalidShape
   \<and> (\<exists>s. EM_algo_init (fin_nd 1 1 [[1]]) 1 (PyList [Fin 1]) (NdArray (fin_nd 1 1 [[1]]))
          (fin_nd 1 1 [[1]]) = Inr s
        \<and> rhos s = [Fin 1] \<and> betas s = fin_nd 1 1 [[1]])"
proof -
  have run: "EM_algo_init (fin_nd 1 1 [[1]]) 1 (PyList [Fin 1]) (NdArray (fin_nd 1 1 [[1]]))
      (fin_nd 1 1 [[1]])
    = Inr \<lparr>D = 1, V = 1, K = 1, data = fin_nd 1 1 [[1]],
           rhos = [Fin 1], betas = fin_nd 1 1 [[1]],
           ll_history = [], ll = None, zs = None\<rparr>"
    by (simp add: EM_algo_init_def fin_nd_def nd_size_def)
  show ?thesis
    using init_stores_prior_unvalidated [of "fin_nd 1 1 [[1]]" 1 "PyList [Fin 1]"
        "NdArray (fin_nd 1 1 [[1]])" "fin_nd 1 1 [[1]]"] run
    by simp
qed

section \<open>The responsibilities\<close>

lemma collect_Inr_length: "collect rs = Inr xs \<Longrightarrow> length xs = length rs"
  by (induction rs arbitrary: xs) (auto split: sum.splits)

lemma collect_Inr_nth: "collect rs = Inr xs \<Longrightarrow> i < length rs \<Longrightarrow> rs ! i = Inr (xs ! i)"
proof (induction rs arbitrary: xs i)
  case Nil
  then show ?case by simp
next
  case (Cons r rs)
  then show ?case by (cases i) (auto split: sum.splits)
qed

lemma E_step_dt_temp_shape:
  assumes "E_step_dt_temp s = Inr L"
  shows "shape0 L = D s" and "shape1 L = K s" and "length (rows L) = D s"
    and "list_all (\<lambda>r. length r = K s) (rows L)"
proof -
  from assms obtain rs where
    rs: "collect (map (\<lambda>doc. collect (map (log_weight s doc) [0..<K s])) [0..<D s]) = Inr rs"
    and L: "L = \<lparr>shape0 = D s, shape1 = K s, rows = rs\<rparr>"
    by (auto simp: E_step_dt_temp_def split: sum.splits)
  show "shape0 L = D s" "shape1 L = K s" by (simp_all add: L)
  show len: "length (rows L) = D s" using collect_Inr_length [OF rs] by (simp add: L)
  have "length (rs ! d) = K s" if "d < D s" for d
    using collect_Inr_nth [OF rs, of d] that collect_Inr_length [of _ "rs ! d"] by fastforce
  then show "list_all (\<lambda>r. length r = K s) (rows L)"
    using len by (simp add: L list_all_length)
qed

lemma E_step_dt_temp_wf: "E_step_dt_temp s = Inr L \<Longrightarrow> wf_nd L"
  using E_step_dt_temp_shape [of s L] by (simp add: wf_nd_def)

lemma rows_normalize_rows:
  "rows (normalize_rows A) = map (\<lambda>r. map (\<lambda>x. f_div x (np_sum r)) r) (rows A)"
  by (simp add: normalize_rows_def div_col_def sum_axis1_def zip_map2 zip_same_conv_map)

lemma sum_list_divide: "(\<Sum>e\<leftarrow>es. e / t) = sum_list es / (t::real)"
  by (induction es) (simp_all add: add_divide_distrib)




section \<open>The M-step\<close>

lemma is_matrixD:
  assumes "is_matrix n m M"
  shows "length M = n" and "\<And>d. d < n \<Longrightarrow> length (M ! d) = m"
    and "\<And>r. r \<in> set M \<Longrightarrow> length r = m"
proof -
  show "length M = n" using assms by (simp add: is_matrix_def)
  show "\<And>d. d < n \<Longrightarrow> length (M ! d) = m"
    using assms by (simp add: is_matrix_def list_all_length)
  show "\<And>r. r \<in> set M \<Longrightarrow> length r = m"
    using assms by (simp add: is_matrix_def list_all_iff)
qed

lemma sum_list_map_nth: "(\<Sum>x\<leftarrow>xs. f x) = (\<Sum>i<length xs. (f (xs ! i) :: real))"
  using sum_list_sum_nth [of "map f xs"] by (simp add: atLeast0LessThan)

lemma sum_list_nth: "sum_list xs = (\<Sum>i<length xs. (xs ! i :: real))"
  using sum_list_map_nth [of "\<lambda>x. x" xs] by simp

lemma sum_axis0_fin:
  assumes "is_matrix n k Z"
  shows "sum_axis0 (fin_nd n k Z) = map (\<lambda>j. Fin (\<Sum>d<n. Z ! d ! j)) [0..<k]"
proof -
  have "np_sum (map (\<lambda>r. r ! j) (map (map Fin) Z)) = Fin (\<Sum>d<n. Z ! d ! j)" if "j < k" for j
  proof -
    have "map (\<lambda>r. r ! j) (map (map Fin) Z) = map (Fin \<circ> (\<lambda>r. r ! j)) Z"
      using is_matrixD(3) [OF assms] that by simp
    then show ?thesis
      using is_matrixD(1) [OF assms] by (simp add: np_sum_Fin_comp sum_list_map_nth del: map_map)
  qed
  then show ?thesis by (simp add: sum_axis0_def fin_nd_def)
qed

lemma np_dot_T_fin:
  assumes "is_matrix n k Z" and "is_matrix n v X"
  shows "np_dot_T (fin_nd n k Z) (fin_nd n v X) = Inr (fin_nd k v (spec_raw Z X k v))"
proof -
  have e: "np_sum (map (\<lambda>d. f_mul (map (map Fin) Z ! d ! j) (map (map Fin) X ! d ! w)) [0..<n])
      = Fin (\<Sum>d<n. Z ! d ! j * X ! d ! w)" if "j < k" "w < v" for j w
  proof -
    have *: "map (\<lambda>d. f_mul (map (map Fin) Z ! d ! j) (map (map Fin) X ! d ! w)) [0..<n]
        = map (Fin \<circ> (\<lambda>d. Z ! d ! j * X ! d ! w)) [0..<n]"
      using is_matrixD(1,2) [OF assms(1)] is_matrixD(1,2) [OF assms(2)] that by simp
    show ?thesis unfolding * np_sum_Fin_comp sum_list_upt ..
  qed
  show ?thesis
    using is_matrixD(1) [OF assms(1)]
    by (simp add: np_dot_T_def fin_nd_def spec_raw_def e)
qed

lemma M_step_fin_raw:
  assumes "is_matrix n v X" and "data s = fin_nd n v X"
    and "is_matrix n k Z" and "zs s = Some (fin_nd n k Z)"
  shows "M_step s = Inr (s\<lparr>rhos := map (\<lambda>j. f_div (Fin (\<Sum>d<n. Z ! d ! j)) (Fin (real (D s)))) [0..<k],
                          betas := normalize_rows (fin_nd k v (spec_raw Z X k v))\<rparr>)"
  using assms np_dot_T_fin [OF assms(3,1)] sum_axis0_fin [OF assms(3)]
  by (simp add: M_step_def comp_def)

lemma normalize_rows_fin:
  assumes "list_all (\<lambda>r. sum_list r \<noteq> 0) M"
  shows "normalize_rows (fin_nd n m M) = fin_nd n m (map (\<lambda>r. map (\<lambda>x. x / sum_list r) r) M)"
proof -
  have "(\<lambda>r. map (\<lambda>x. f_div x (np_sum r)) r) (map Fin r) = map Fin (map (\<lambda>x. x / sum_list r) r)"
    if "r \<in> set M" for r
    using assms that by (simp add: np_sum_Fin list_all_iff)
  then have "map ((\<lambda>r. map (\<lambda>x. f_div x (np_sum r)) r) \<circ> map Fin) M
      = map (map Fin \<circ> (\<lambda>r. map (\<lambda>x. x / sum_list r) r)) M"
    by (intro map_cong refl) simp
  then have "rows (normalize_rows (fin_nd n m M))
      = rows (fin_nd n m (map (\<lambda>r. map (\<lambda>x. x / sum_list r) r) M))"
    by (simp add: rows_normalize_rows fin_nd_def)
  then show ?thesis by (simp add: normalize_rows_def div_col_def fin_nd_def)
qed

lemma sum_list_spec_raw:
  assumes "j < k"
  shows "sum_list (spec_raw Z X k v ! j) = (\<Sum>d<length Z. Z ! d ! j * (\<Sum>w<v. X ! d ! w))"
proof -
  have "sum_list (spec_raw Z X k v ! j) = (\<Sum>w<v. \<Sum>d<length Z. Z ! d ! j * X ! d ! w)"
    using assms by (simp add: spec_raw_def sum_list_upt)
  also have "\<dots> = (\<Sum>d<length Z. \<Sum>w<v. Z ! d ! j * X ! d ! w)"
    by (rule sum.swap)
  finally show ?thesis by (simp add: sum_distrib_left)
qed

lemma M_step_fin:
  assumes "0 < n" and "D s = n"
    and "is_matrix n v X" and "data s = fin_nd n v X"
    and "is_matrix n k Z" and "zs s = Some (fin_nd n k Z)"
    and "\<forall>j<k. (\<Sum>d<n. Z ! d ! j * (\<Sum>w<v. X ! d ! w)) \<noteq> 0"
  shows "M_step s = Inr (s\<lparr>rhos := map Fin (spec_rho Z k),
                          betas := fin_nd k v (spec_beta Z X k v)\<rparr>)"
proof -
  have lZ: "length Z = n" using assms(5) by (rule is_matrixD)
  have "list_all (\<lambda>r. sum_list r \<noteq> 0) (spec_raw Z X k v)"
    unfolding list_all_length
  proof (intro allI impI)
    fix j assume "j < length (spec_raw Z X k v)"
    then have "j < k" by (simp add: spec_raw_def)
    then show "sum_list (spec_raw Z X k v ! j) \<noteq> 0"
      using assms(7) by (simp add: sum_list_spec_raw lZ)
  qed
  then have "normalize_rows (fin_nd k v (spec_raw Z X k v)) = fin_nd k v (spec_beta Z X k v)"
    by (simp add: normalize_rows_fin spec_beta_def)
  moreover have "map (\<lambda>j. f_div (Fin (\<Sum>d<n. Z ! d ! j)) (Fin (real (D s)))) [0..<k]
      = map Fin (spec_rho Z k)"
    using assms(1,2) by (simp add: spec_rho_def lZ)
  ultimately show ?thesis
    using M_step_fin_raw [OF assms(3-6)] by simp
qed

lemma sum_list_spec_rho:
  assumes "0 < n" and "is_matrix n k Z" and "list_all (\<lambda>r. sum_list r = 1) Z"
  shows "sum_list (spec_rho Z k) = 1"
proof -
  have lZ: "length Z = n" using assms(2) by (rule is_matrixD)
  have row: "(\<Sum>j<k. Z ! d ! j) = 1" if "d < n" for d
  proof -
    have "sum_list (Z ! d) = 1" using assms(3) that lZ by (simp add: list_all_length)
    then show ?thesis using is_matrixD(2) [OF assms(2) that] by (simp add: sum_list_nth)
  qed
  have "sum_list (spec_rho Z k) = (\<Sum>j<k. (\<Sum>d<n. Z ! d ! j) / real n)"
    by (simp add: spec_rho_def sum_list_upt lZ)
  also have "\<dots> = (\<Sum>j<k. \<Sum>d<n. Z ! d ! j) / real n"
    by (simp add: sum_divide_distrib)
  also have "(\<Sum>j<k. \<Sum>d<n. Z ! d ! j) = (\<Sum>d<n. \<Sum>j<k. Z ! d ! j)"
    by (rule sum.swap)
  also have "\<dots> = real n" using row by simp
  finally show ?thesis using assms(1) by simp
qed

lemma spec_beta_rows:
  assumes "\<forall>j<k. (\<Sum>d<length Z. Z ! d ! j * (\<Sum>w<v. X ! d ! w)) \<noteq> 0"
  shows "is_matrix k v (spec_beta Z X k v)"
    and "list_all (\<lambda>r. sum_list r = 1) (spec_beta Z X k v)"
proof -
  show "is_matrix k v (spec_beta Z X k v)"
    by (simp add: is_matrix_def spec_beta_def spec_raw_def list_all_iff)
  show "list_all (\<lambda>r. sum_list r = 1) (spec_beta Z X k v)"
    unfolding list_all_length
  proof (intro allI impI)
    fix j assume "j < length (spec_beta Z X k v)"
    then have j: "j < k" by (simp add: spec_beta_def spec_raw_def)
    then have "sum_list (spec_raw Z X k v ! j) \<noteq> 0"
      using assms by (simp add: sum_list_spec_raw)
    moreover have "spec_beta Z X k v ! j
        = map (\<lambda>x. x / sum_list (spec_raw Z X k v ! j)) (spec_raw Z X k v ! j)"
      using j by (simp add: spec_beta_def spec_raw_def)
    ultimately show "sum_list (spec_beta Z X k v ! j) = 1"
      by (simp add: sum_list_divide)
  qed
qed

text \<open>
  C2, as claimed: for every count matrix with at least one row and every \<open>Z\<close> whose rows
  sum to one, the M-step yields \<open>rho\<close> and \<open>beta\<close> on the simplex. For one document with
  the single count \<open>1\<close> and \<open>Z = [[1, 0]]\<close> the second topic has total zero, and its row of
  \<open>beta\<close> is \<open>0 / 0 = nan\<close>.
\<close>

theorem M_step_nan_row:
  "np_sum [Fin 1, Fin 0] = Fin 1
   \<and> M_step c2_state
     = Inr (c2_state\<lparr>rhos := [Fin 1, Fin 0],
                     betas := \<lparr>shape0 = 2, shape1 = 1, rows = [[Fin 1], [NaN]]\<rparr>\<rparr>)
   \<and> np_sum [NaN] \<noteq> Fin 1"
  by (simp add: M_step_def c2_state_def fin_nd_def np_dot_T_def sum_axis0_def normalize_rows_def
      div_col_def sum_axis1_def inf_times_def upt_rec)

text \<open>
  C2, amended: for a count matrix with \<open>D \<ge> 1\<close> rows and a responsibility matrix \<open>Z\<close> whose
  rows sum to one, and when every topic's total \<open>\<Sum>d. Z[d,k] * \<Sum>v. X[d,v]\<close> is not zero, the
  M-step stores \<open>rho[k] = (\<Sum>d. Z[d,k]) / D\<close> with \<open>\<Sum>k. rho[k] = 1\<close>, and a \<open>beta\<close> of shape
  \<open>K \<times> V\<close> each of whose rows sums to one.
\<close>

theorem M_step_simplex:
  assumes "0 < n" and "D s = n"
    and "is_matrix n v X" and "data s = fin_nd n v X"
    and "is_matrix n k Z" and "zs s = Some (fin_nd n k Z)"
    and "list_all (\<lambda>r. sum_list r = 1) Z"
    and "\<forall>j<k. (\<Sum>d<n. Z ! d ! j * (\<Sum>w<v. X ! d ! w)) \<noteq> 0"
  shows "M_step s = Inr (s\<lparr>rhos := map Fin (spec_rho Z k),
                          betas := fin_nd k v (spec_beta Z X k v)\<rparr>)
    \<and> length (spec_rho Z k) = k
    \<and> (\<forall>j<k. spec_rho Z k ! j = (\<Sum>d<n. Z ! d ! j) / real n)
    \<and> sum_list (spec_rho Z k) = 1
    \<and> is_matrix k v (spec_beta Z X k v)
    \<and> list_all (\<lambda>r. sum_list r = 1) (spec_beta Z X k v)"
proof -
  have lZ: "length Z = n" using assms(5) by (rule is_matrixD)
  have "M_step s = Inr (s\<lparr>rhos := map Fin (spec_rho Z k),
                          betas := fin_nd k v (spec_beta Z X k v)\<rparr>)"
    by (rule M_step_fin) fact+
  moreover have "length (spec_rho Z k) = k" by (simp add: spec_rho_def)
  moreover have "\<forall>j<k. spec_rho Z k ! j = (\<Sum>d<n. Z ! d ! j) / real n"
    by (simp add: spec_rho_def lZ)
  moreover have "sum_list (spec_rho Z k) = 1"
    by (rule sum_list_spec_rho) fact+
  moreover have "is_matrix k v (spec_beta Z X k v)"
    "list_all (\<lambda>r. sum_list r = 1) (spec_beta Z X k v)"
    using spec_beta_rows [where k = k and Z = Z and v = v and X = X] assms(8) lZ by simp_all
  ultimately show ?thesis by simp
qed

theorem M_step_simplex_witness:
  "M_step c2_witness_state
     = Inr (c2_witness_state\<lparr>rhos := map Fin (spec_rho [[1, 0], [1/4, 3/4]] 2),
          betas := fin_nd 2 1 (spec_beta [[1, 0], [1/4, 3/4]] [[1], [2]] 2 1)\<rparr>)
   \<and> sum_list (spec_rho [[1, 0], [1/4, 3/4]] 2) = 1
   \<and> list_all (\<lambda>r. sum_list r = 1) (spec_beta [[1, 0], [1/4, 3/4]] [[1], [2]] 2 1)"
  using M_step_simplex [where n = 2 and s = c2_witness_state and v = 1 and X = "[[1], [2]]"
      and k = 2 and Z = "[[1, 0], [1/4, 3/4]]"]
  by (simp add: c2_witness_state_def is_matrix_def less_Suc_eq numeral_2_eq_2 lessThan_Suc)

section \<open>Degenerate steps\<close>

lemma np_sum_NaN: "NaN \<in> set xs \<Longrightarrow> np_sum xs = NaN"
proof (induction xs)
  case Nil
  then show ?case by simp
next
  case (Cons x xs)
  have "f_add y NaN = NaN" for y by (cases y) simp_all
  with Cons show ?case by auto
qed

lemma max_list_NegInf: "max_list NegInf (replicate n NegInf) = NegInf"
  by (induction n) simp_all

lemma max_axis1_Inr:
  assumes "0 < shape1 L" and "list_all (\<lambda>r. length r = shape1 L) (rows L)"
  shows "\<exists>m. max_axis1 L = Inr m \<and> length m = length (rows L)
           \<and> (\<forall>d<length (rows L). row_max (rows L ! d) = Inr (m ! d))"
proof -
  have "\<exists>y. row_max r = Inr y" if "r \<in> set (rows L)" for r
    using assms that by (cases r) (auto simp: row_max_def list_all_iff)
  then obtain g where g: "\<And>r. r \<in> set (rows L) \<Longrightarrow> row_max r = Inr (g r)"
    by metis
  have "collect (map row_max (rows L)) = Inr (map g (rows L))"
    by (rule collect_map_Inr) (rule g)
  then show ?thesis using assms(1) g by (simp add: max_axis1_def)
qed

lemma E_step_degenerate_row:
  assumes dt: "E_step_dt_temp s = Inr L" and d: "d < D s" and k: "0 < K s"
    and row: "rows L ! d = replicate (K s) NegInf"
  shows "\<exists>s' z. E_step s = Inr s' \<and> ll s' = Some NaN \<and> zs s' = Some z
           \<and> rows z ! d = replicate (K s) NaN"
proof -
  note sh = E_step_dt_temp_shape [OF dt]
  from max_axis1_Inr [of L] sh k obtain m where
    m: "max_axis1 L = Inr m" "length m = D s" "row_max (rows L ! d) = Inr (m ! d)"
    using d by auto
  obtain k' where k': "K s = Suc k'" using k by (cases "K s") auto
  have md: "m ! d = NegInf"
    using m(3) by (simp add: row k' row_max_def max_list_NegInf)
  let ?A = "map f_log (sum_axis1 (nd_map f_exp (sub_col L m)))"
  have "sum_axis1 (nd_map f_exp (sub_col L m)) ! d
      = np_sum (map f_exp (map (\<lambda>x. f_sub x (m ! d)) (rows L ! d)))"
    using d sh(3) m(2) by (simp add: sum_axis1_def nd_map_def sub_col_def)
  also have "\<dots> = NaN"
    by (simp add: row md f_sub_def k')
  finally have "?A ! d = NaN"
    using d sh(3) m(2) by (simp add: sum_axis1_def nd_map_def sub_col_def)
  moreover have "d < length ?A"
    using d sh(3) m(2) by (simp add: sum_axis1_def nd_map_def sub_col_def)
  ultimately have "NaN \<in> set ?A" by (metis nth_mem)
  then have "np_sum ?A = NaN" by (rule np_sum_NaN)
  then have ll: "E_step_complete_ll L L = Inr NaN"
    by (simp add: E_step_complete_ll_def m(1))
  have "np_sum (replicate n (Fin 0)) = Fin 0" for n by (induction n) simp_all
  then have "rows (normalize_rows (nd_map f_exp L)) ! d = replicate (K s) NaN"
    using d sh(3) by (simp add: rows_normalize_rows nd_map_def row inf_times_def)
  with dt ll show ?thesis by (simp add: E_step_def)
qed

lemma M_step_degenerate_topic:
  assumes X: "is_matrix n v X" "data s = fin_nd n v X"
    and Z: "is_matrix n k Z" "zs s = Some (fin_nd n k Z)"
    and nonneg: "list_all (list_all (\<lambda>x. 0 \<le> x)) X" "list_all (list_all (\<lambda>x. 0 \<le> x)) Z"
    and j: "j < k" and zero: "(\<Sum>d<n. Z ! d ! j * (\<Sum>w<v. X ! d ! w)) = 0"
  shows "\<exists>s'. M_step s = Inr s' \<and> rows (betas s') ! j = replicate v NaN"
proof -
  have lZ: "length Z = n" using Z(1) by (rule is_matrixD)
  have lX: "length X = n" using X(1) by (rule is_matrixD)
  have nn: "0 \<le> Z ! d ! j * X ! d ! w" if "d < n" "w < v" for d w
  proof -
    have "0 \<le> Z ! d ! j"
      using nonneg(2) that j lZ is_matrixD(2) [OF Z(1) that(1)] by (simp add: list_all_length)
    moreover have "0 \<le> X ! d ! w"
      using nonneg(1) that lX is_matrixD(2) [OF X(1) that(1)] by (simp add: list_all_length)
    ultimately show ?thesis by simp
  qed
  let ?r = "spec_raw Z X k v ! j"
  have r: "?r = map (\<lambda>w. \<Sum>d<n. Z ! d ! j * X ! d ! w) [0..<v]"
    using j by (simp add: spec_raw_def lZ)
  have tot: "sum_list ?r = 0" using zero j by (simp add: sum_list_spec_raw lZ)
  have "(\<Sum>w<v. \<Sum>d<n. Z ! d ! j * X ! d ! w) = 0"
    using tot by (simp add: r sum_list_upt)
  then have "\<forall>w\<in>{..<v}. (\<Sum>d<n. Z ! d ! j * X ! d ! w) = 0"
    by (subst (asm) sum_nonneg_eq_0_iff) (auto intro: sum_nonneg nn)
  then have "?r = replicate v 0"
    unfolding r by (intro nth_equalityI) simp_all
  moreover have "np_sum (map Fin ?r) = Fin 0"
    by (simp add: np_sum_Fin tot)
  ultimately have "map (\<lambda>x. f_div x (np_sum (map Fin ?r))) (map Fin ?r) = replicate v NaN"
    by (simp add: inf_times_def del: map_map)
  moreover have "rows (normalize_rows (fin_nd k v (spec_raw Z X k v))) ! j
      = map (\<lambda>x. f_div x (np_sum (map Fin ?r))) (map Fin ?r)"
    using j by (simp add: rows_normalize_rows fin_nd_def spec_raw_def del: map_map)
  ultimately show ?thesis
    using M_step_fin_raw [OF X Z] by simp
qed

lemma collect_Inl: "collect rs = Inl e \<Longrightarrow> Inl e \<in> set rs"
  by (induction rs) (auto split: sum.splits)

lemma log_weight_errors: "log_weight s d k = Inl e \<Longrightarrow> e = IndexError \<or> e = ValueError"
  by (auto simp: log_weight_def np_multiply_def split: if_splits sum.splits)

lemma max_axis1_errors: "max_axis1 A = Inl e \<Longrightarrow> e = ValueError"
  by (auto simp: max_axis1_def row_max_def split: if_splits list.splits dest!: collect_Inl)

lemma E_step_errors:
  assumes "E_step s = Inl e"
  shows "e = IndexError \<or> e = ValueError"
proof (cases "E_step_dt_temp s")
  case (Inl e')
  then have e: "e' = e" using assms by (simp add: E_step_def)
  from Inl obtain d where "collect (map (log_weight s d) [0..<K s]) = Inl e'"
    by (auto simp: E_step_dt_temp_def split: sum.splits dest!: collect_Inl)
  then obtain k where "log_weight s d k = Inl e'"
    by (auto dest!: collect_Inl)
  then show ?thesis
    using e log_weight_errors by blast
next
  case (Inr L)
  then have "E_step_complete_ll L L = Inl e"
    using assms by (auto simp: E_step_def split: sum.splits)
  then show ?thesis
    by (auto simp: E_step_complete_ll_def split: sum.splits dest: max_axis1_errors)
qed

lemma M_step_errors: "M_step s = Inl e \<Longrightarrow> e = AttributeError \<or> e = ValueError"
  by (auto simp: M_step_def np_dot_T_def split: option.splits sum.splits if_splits)

lemma EM_pair_errors:
  "EM_pair s = Inl e \<Longrightarrow> e = IndexError \<or> e = ValueError \<or> e = AttributeError"
  by (auto simp: EM_pair_def split: sum.splits dest: E_step_errors M_step_errors)

lemma stop_test_errors: "stop_test tolerance s = Inl e \<Longrightarrow> e = AttributeError \<or> e = IndexError"
  by (auto simp: stop_test_def split: option.splits if_splits)

lemma iterate_loop_errors:
  "iterate_loop tolerance max_iter count s = Inl e
    \<Longrightarrow> e = IndexError \<or> e = ValueError \<or> e = AttributeError"
proof (induction tolerance max_iter count s rule: iterate_loop.induct)
  case (1 tolerance max_iter count s)
  note unfold = iterate_loop.simps [of tolerance max_iter count s]
  show ?case
  proof (cases "EM_pair s")
    case (Inl e')
    then show ?thesis using "1.prems" EM_pair_errors [of s e'] unfold by simp
  next
    case (Inr s2)
    show ?thesis
    proof (cases "length (ll_history s2) = 1")
      case True
      then show ?thesis using "1.IH"(1) [OF Inr True] "1.prems" Inr unfold by simp
    next
      case False
      show ?thesis
      proof (cases "stop_test tolerance s2")
        case (Inl e')
        then show ?thesis
          using "1.prems" Inr False stop_test_errors [of tolerance s2 e'] unfold by auto
      next
        case stop: (Inr stop)
        then show ?thesis
          using "1.IH"(2) [OF Inr False stop] "1.prems" Inr False unfold
          by (auto split: if_splits)
      qed
    qed
  qed
qed

lemma c6_E_dt: "E_step_dt_temp c6_E_state = Inr \<lparr>shape0 = 1, shape1 = 1, rows = [[NegInf]]\<rparr>"
  by (simp add: E_step_dt_temp_def c6_E_state_def fin_nd_def log_weight_def np_multiply_def
       upt_rec)

text \<open>
  C6, as claimed: a row of log-weights that is entirely \<open>-inf\<close>, or a topic whose total is
  zero, aborts with NumericalDegenerate. With \<open>rho = [0]\<close> the only log-weight is \<open>-inf\<close>
  and the E-step returns, with \<open>ll = nan\<close> and \<open>zs = [[nan]]\<close>; with an empty document
  the topic total is zero and the M-step returns, with \<open>beta = [[nan]]\<close>.
\<close>

theorem degenerate_steps_do_not_fail:
  "E_step_dt_temp c6_E_state = Inr \<lparr>shape0 = 1, shape1 = 1, rows = [[NegInf]]\<rparr>
   \<and> E_step c6_E_state
     = Inr (c6_E_state\<lparr>ll := Some NaN, ll_history := [NaN],
                       zs := Some \<lparr>shape0 = 1, shape1 = 1, rows = [[NaN]]\<rparr>\<rparr>)
   \<and> M_step c6_M_state
     = Inr (c6_M_state\<lparr>rhos := [Fin 1],
                       betas := \<lparr>shape0 = 1, shape1 = 1, rows = [[NaN]]\<rparr>\<rparr>)"
proof -
  have "E_step c6_E_state
     = Inr (c6_E_state\<lparr>ll := Some NaN, ll_history := [NaN],
                       zs := Some \<lparr>shape0 = 1, shape1 = 1, rows = [[NaN]]\<rparr>\<rparr>)"
    using c6_E_dt
    by (simp add: E_step_def E_step_complete_ll_def max_axis1_def row_max_def sub_col_def
        nd_map_def sum_axis1_def normalize_rows_def div_col_def f_sub_def inf_times_def)
      (simp add: c6_E_state_def)
  moreover have "M_step c6_M_state
     = Inr (c6_M_state\<lparr>rhos := [Fin 1],
                       betas := \<lparr>shape0 = 1, shape1 = 1, rows = [[NaN]]\<rparr>\<rparr>)"
    by (simp add: M_step_def c6_M_state_def fin_nd_def np_dot_T_def sum_axis0_def
        normalize_rows_def div_col_def sum_axis1_def inf_times_def upt_rec)
  ultimately show ?thesis using c6_E_dt by simp
qed

text \<open>
  C6, amended: no step and no run of \<open>iterate\<close> ever fails with NumericalDegenerate. An
  E-step in which a document's row of log-weights is entirely \<open>-inf\<close> returns with
  \<open>ll = nan\<close> and that row of \<open>zs\<close> entirely nan; an M-step on non-negative counts
  and responsibilities in which a topic's total \<open>\<Sum>d. Z[d,k] * \<Sum>v. X[d,v]\<close> is zero returns
  with that topic's row of \<open>beta\<close> entirely nan.
\<close>

theorem degenerate_steps_return_nan:
  "E_step s \<noteq> Inl NumericalDegenerate \<and> M_step s \<noteq> Inl NumericalDegenerate
   \<and> iterate tolerance max_iter s \<noteq> Inl NumericalDegenerate
   \<and> (\<forall>L d. E_step_dt_temp s = Inr L \<and> d < D s \<and> 0 < K s
          \<and> rows L ! d = replicate (K s) NegInf \<longrightarrow>
        (\<exists>s' z. E_step s = Inr s' \<and> ll s' = Some NaN \<and> zs s' = Some z
           \<and> rows z ! d = replicate (K s) NaN))
   \<and> (\<forall>n v X k Z j. is_matrix n v X \<and> data s = fin_nd n v X
          \<and> is_matrix n k Z \<and> zs s = Some (fin_nd n k Z)
          \<and> list_all (list_all (\<lambda>x. 0 \<le> x)) X \<and> list_all (list_all (\<lambda>x. 0 \<le> x)) Z
          \<and> j < k \<and> (\<Sum>d<n. Z ! d ! j * (\<Sum>w<v. X ! d ! w)) = 0 \<longrightarrow>
        (\<exists>s'. M_step s = Inr s' \<and> rows (betas s') ! j = replicate v NaN))"
proof (intro conjI allI impI)
  show "E_step s \<noteq> Inl NumericalDegenerate" using E_step_errors [of s] by auto
  show "M_step s \<noteq> Inl NumericalDegenerate" using M_step_errors [of s] by auto
  show "iterate tolerance max_iter s \<noteq> Inl NumericalDegenerate"
    using iterate_loop_errors [of tolerance max_iter 0 s] by (auto simp: iterate_def)
next
  fix L d
  assume "E_step_dt_temp s = Inr L \<and> d < D s \<and> 0 < K s
          \<and> rows L ! d = replicate (K s) NegInf"
  then show "\<exists>s' z. E_step s = Inr s' \<and> ll s' = Some NaN \<and> zs s' = Some z
           \<and> rows z ! d = replicate (K s) NaN"
    using E_step_degenerate_row [of s L d] by simp
next
  fix n v X k Z j
  assume "is_matrix n v X \<and> data s = fin_nd n v X
          \<and> is_matrix n k Z \<and> zs s = Some (fin_nd n k Z)
          \<and> list_all (list_all (\<lambda>x. 0 \<le> x)) X \<and> list_all (list_all (\<lambda>x. 0 \<le> x)) Z
          \<and> j < k \<and> (\<Sum>d<n. Z ! d ! j * (\<Sum>w<v. X ! d ! w)) = 0"
  then show "\<exists>s'. M_step s = Inr s' \<and> rows (betas s') ! j = replicate v NaN"
    using M_step_degenerate_topic [where s = s and n = n and v = v and X = X and k = k
        and Z = Z and j = j] by simp
qed

theorem degenerate_steps_return_nan_witness:
  "(\<exists>s' z. E_step c6_E_state = Inr s' \<and> ll s' = Some NaN \<and> zs s' = Some z
       \<and> rows z ! 0 = replicate (K c6_E_state) NaN)
   \<and> (\<exists>s'. M_step c6_M_state = Inr s' \<and> rows (betas s') ! 0 = replicate 1 NaN)"
proof -
  have "\<exists>s' z. E_step c6_E_state = Inr s' \<and> ll s' = Some NaN \<and> zs s' = Some z
       \<and> rows z ! 0 = replicate (K c6_E_state) NaN"
    using degenerate_steps_return_nan [of c6_E_state, THEN conjunct2, THEN conjunct2,
        THEN conjunct2, THEN conjunct1, rule_format,
        of "\<lparr>shape0 = 1, shape1 = 1, rows = [[NegInf]]\<rparr>" 0] c6_E_dt
    by (simp add: c6_E_state_def)
  moreover have "\<exists>s'. M_step c6_M_state = Inr s' \<and> rows (betas s') ! 0 = replicate 1 NaN"
    using degenerate_steps_return_nan [of c6_M_state, THEN conjunct2, THEN conjunct2,
        THEN conjunct2, THEN conjunct2, rule_format, of 1 1 "[[0]]" 1 "[[1]]" 0]
    by (simp add: c6_M_state_def is_matrix_def)
  ultimately show ?thesis by simp
qed

section \<open>The convergence driver\<close>

lemmas eval_defs = EM_pair_def E_step_def E_step_dt_temp_def log_weight_def np_multiply_def
  E_step_complete_ll_def max_axis1_def row_max_def sub_col_def nd_map_def sum_axis1_def
  normalize_rows_def div_col_def f_sub_def M_step_def np_dot_T_def sum_axis0_def fin_nd_def
  inf_times_def upt_rec

lemma EM_pair_fixed_point:
  "EM_pair (c4_state\<lparr>ll := l, ll_history := h, zs := z\<rparr>)
    = Inr (c4_state\<lparr>ll := Some (Fin 0), ll_history := h @ [Fin 0],
                    zs := Some (fin_nd 1 1 [[1]])\<rparr>)"
  by (simp add: c4_state_def eval_defs)

lemma c4_state_eq: "c4_state = c4_state\<lparr>ll := None, ll_history := [], zs := None\<rparr>"
  by (simp add: c4_state_def)

lemma c4_pass1: "EM_pair c4_state
    = Inr (c4_state\<lparr>ll := Some (Fin 0), ll_history := [Fin 0], zs := Some (fin_nd 1 1 [[1]])\<rparr>)"
  using EM_pair_fixed_point [of None "[]" None] c4_state_eq by simp

lemma c4_init: "EM_algo_init (fin_nd 1 1 [[1]]) 1 PyNone PyNone (fin_nd 1 1 [[1]]) = Inr c4_state"
  by (simp add: EM_algo_init_def c4_state_def fin_nd_def)

lemma EM_pairs_history:
  "EM_pairs n s = Inr s' \<Longrightarrow> length (ll_history s') = length (ll_history s) + n"
proof (induction n arbitrary: s)
  case 0
  then show ?case by simp
next
  case (Suc n)
  then show ?case by (auto split: sum.splits dest!: EM_pair_history)
qed

lemma EM_pair_history_ge_2:
  assumes "EM_pair s = Inr s2" and "length (ll_history s2) \<noteq> 1"
  shows "2 \<le> length (ll_history s2)"
  using EM_pair_history [OF assms(1)] assms(2) by (cases "ll_history s") simp_all

lemma iterate_loop_first_pass:
  assumes "EM_pair s = Inr s2" and "length (ll_history s2) = 1"
  shows "iterate_loop tolerance max_iter count s = iterate_loop tolerance max_iter count s2"
  using assms by (simp add: iterate_loop.simps [of tolerance max_iter count s])

lemma iterate_loop_exhausts:
  assumes "ll_history s \<noteq> []"
    and "\<forall>n. 1 \<le> n \<and> n \<le> Suc r \<longrightarrow>
          (\<exists>s'. EM_pairs n s = Inr s' \<and> stop_test tolerance s' = Inr False)"
    and "r = nat (max_iter + 1 - count)"
  shows "\<exists>s'. iterate_loop tolerance max_iter count s = Inr (MaxIterationsReached, s')
           \<and> EM_pairs (Suc r) s = Inr s'"
  using assms
proof (induction r arbitrary: s count)
  case 0
  from "0.prems"(2) [rule_format, of 1] obtain s1 where
    s1: "EM_pair s = Inr s1" "stop_test tolerance s1 = Inr False"
    by (auto split: sum.splits)
  have "length (ll_history s1) \<noteq> 1"
    using EM_pair_history [OF s1(1)] "0.prems"(1) by simp
  moreover have "count > max_iter" using "0.prems"(3) by simp
  ultimately show ?case
    using s1 by (simp add: iterate_loop.simps [of tolerance max_iter count s])
next
  case (Suc r)
  from Suc.prems(2) [rule_format, of 1] obtain s1 where
    s1: "EM_pair s = Inr s1" "stop_test tolerance s1 = Inr False"
    by (auto split: sum.splits)
  have len: "length (ll_history s1) \<noteq> 1" "ll_history s1 \<noteq> []"
    using EM_pair_history [OF s1(1)] Suc.prems(1) by auto
  have cnt: "\<not> count > max_iter" "r = nat (max_iter + 1 - (count + 1))"
    using Suc.prems(3) by simp_all
  have "\<forall>n. 1 \<le> n \<and> n \<le> Suc r \<longrightarrow>
          (\<exists>s'. EM_pairs n s1 = Inr s' \<and> stop_test tolerance s' = Inr False)"
  proof (intro allI impI)
    fix n assume "1 \<le> n \<and> n \<le> Suc r"
    then have "1 \<le> Suc n \<and> Suc n \<le> Suc (Suc r)" by simp
    from Suc.prems(2) [rule_format, OF this] show
      "\<exists>s'. EM_pairs n s1 = Inr s' \<and> stop_test tolerance s' = Inr False"
      using s1(1) by simp
  qed
  from Suc.IH [OF len(2) this cnt(2)] obtain s' where
    "iterate_loop tolerance max_iter (count + 1) s1 = Inr (MaxIterationsReached, s')"
    "EM_pairs (Suc r) s1 = Inr s'"
    by blast
  then show ?case
    using s1 len(1) cnt(1) by (simp add: iterate_loop.simps [of tolerance max_iter count s])
qed

lemma iterate_exhausts:
  assumes "ll_history s = []"
    and "\<forall>n. 1 \<le> n \<and> n \<le> 2 + nat (max_iter + 1) \<longrightarrow>
          (\<exists>s'. EM_pairs n s = Inr s' \<and> (2 \<le> n \<longrightarrow> stop_test tolerance s' = Inr False))"
  shows "\<exists>s'. iterate tolerance max_iter s = Inr (MaxIterationsReached, s')
           \<and> EM_pairs (2 + nat (max_iter + 1)) s = Inr s'
           \<and> length (ll_history s') = 2 + nat (max_iter + 1)"
proof -
  from assms(2) [rule_format, of 1] obtain s1 where s1: "EM_pair s = Inr s1"
    by (auto split: sum.splits)
  have len: "length (ll_history s1) = 1" "ll_history s1 \<noteq> []"
    using EM_pair_history [OF s1] assms(1) by auto
  have "\<forall>n. 1 \<le> n \<and> n \<le> Suc (nat (max_iter + 1)) \<longrightarrow>
          (\<exists>s'. EM_pairs n s1 = Inr s' \<and> stop_test tolerance s' = Inr False)"
  proof (intro allI impI)
    fix n assume n: "1 \<le> n \<and> n \<le> Suc (nat (max_iter + 1))"
    then have "1 \<le> Suc n \<and> Suc n \<le> 2 + nat (max_iter + 1)" by simp
    from assms(2) [rule_format, OF this] show
      "\<exists>s'. EM_pairs n s1 = Inr s' \<and> stop_test tolerance s' = Inr False"
      using s1 n by simp
  qed
  from iterate_loop_exhausts [OF len(2) this, of max_iter 0] obtain s' where
    s': "iterate_loop tolerance max_iter 0 s1 = Inr (MaxIterationsReached, s')"
      "EM_pairs (Suc (nat (max_iter + 1))) s1 = Inr s'"
    by auto
  have "EM_pairs (2 + nat (max_iter + 1)) s = Inr s'"
    using s1 s'(2) by simp
  moreover from this have "length (ll_history s') = 2 + nat (max_iter + 1)"
    using EM_pairs_history [of "2 + nat (max_iter + 1)" s s'] assms(1) by simp
  ultimately show ?thesis
    using s'(1) iterate_loop_first_pass [OF s1 len(1), of tolerance max_iter 0]
    by (simp add: iterate_def)
qed

lemma c4_pairs:
  assumes "1 \<le> n \<and> n \<le> 2 + nat (0 + 1)"
  shows "\<exists>s'. EM_pairs n c4_state = Inr s' \<and> (2 \<le> n \<longrightarrow> stop_test (Fin 0) s' = Inr False)"
proof -
  from assms consider "n = 1" | "n = 2" | "n = 3" by fastforce
  then show ?thesis
  proof cases
    case 1
    then show ?thesis by (simp add: c4_pass1)
  next
    case 2
    then show ?thesis
      by (simp add: numeral_2_eq_2 c4_pass1 EM_pair_fixed_point stop_test_def f_sub_def)
  next
    case 3
    then show ?thesis
      by (simp add: numeral_3_eq_3 c4_pass1 EM_pair_fixed_point stop_test_def f_sub_def)
  qed
qed

text \<open>
  C4, as claimed: when the tolerance condition never holds, \<open>iterate\<close> stops with
  MaxIterationsReached after at most \<open>max_iter + 1\<close> completed pairs. The state built by the
  constructor for one document with one word and \<open>K = 1\<close> is a fixed point with
  log-likelihood \<open>0\<close>; with \<open>tolerance = 0\<close> the test \<open>0 - 0 < 0\<close> never holds, and with
  \<open>max_iter = 0\<close> the loop runs three pairs: the first pass does not count, and \<open>count\<close> is
  compared before it is incremented.
\<close>

theorem iterate_three_pairs_for_max_iter_zero:
  "EM_algo_init (fin_nd 1 1 [[1]]) 1 PyNone PyNone (fin_nd 1 1 [[1]]) = Inr c4_state
   \<and> iterate (Fin 0) 0 c4_state
     = Inr (MaxIterationsReached,
            c4_state\<lparr>ll := Some (Fin 0), ll_history := [Fin 0, Fin 0, Fin 0],
                      zs := Some (fin_nd 1 1 [[1]])\<rparr>)
   \<and> EM_pairs 3 c4_state
     = Inr (c4_state\<lparr>ll := Some (Fin 0), ll_history := [Fin 0, Fin 0, Fin 0],
                      zs := Some (fin_nd 1 1 [[1]])\<rparr>)
   \<and> \<not> (3::nat) \<le> nat (0 + 1)"
proof -
  have 3: "EM_pairs 3 c4_state
     = Inr (c4_state\<lparr>ll := Some (Fin 0), ll_history := [Fin 0, Fin 0, Fin 0],
                      zs := Some (fin_nd 1 1 [[1]])\<rparr>)"
    by (simp add: numeral_3_eq_3 c4_pass1 EM_pair_fixed_point)
  have "iterate (Fin 0) 0 c4_state
     = Inr (MaxIterationsReached,
            c4_state\<lparr>ll := Some (Fin 0), ll_history := [Fin 0, Fin 0, Fin 0],
                      zs := Some (fin_nd 1 1 [[1]])\<rparr>)"
    unfolding iterate_def
    apply (subst iterate_loop.simps)
    apply (simp add: c4_pass1)
    apply (subst iterate_loop.simps)
    apply (simp add: EM_pair_fixed_point stop_test_def f_sub_def)
    apply (subst iterate_loop.simps)
    apply (simp add: EM_pair_fixed_point stop_test_def f_sub_def)
    done
  with 3 c4_init show ?thesis by simp
qed

text \<open>
  C4, amended: from an empty trajectory, when no step raises and the tolerance condition
  does not hold after any pass, \<open>iterate\<close> returns MaxIterationsReached after exactly
  \<open>2 + max (max_iter + 1) 0\<close> completed pairs (\<open>max_iter + 3\<close> for \<open>max_iter \<ge> 0\<close>), which is
  when \<open>count > max_iter\<close> first holds at the test. A pass that leaves one entry in the
  trajectory goes on without evaluating the stopping rule and without counting; after any
  other pass the trajectory has at least two entries.
\<close>

theorem iterate_max_iterations:
  "(ll_history s = []
      \<and> (\<forall>n. 1 \<le> n \<and> n \<le> 2 + nat (max_iter + 1) \<longrightarrow>
            (\<exists>s'. EM_pairs n s = Inr s' \<and> (2 \<le> n \<longrightarrow> stop_test tolerance s' = Inr False)))
     \<longrightarrow> (\<exists>s'. iterate tolerance max_iter s = Inr (MaxIterationsReached, s')
           \<and> EM_pairs (2 + nat (max_iter + 1)) s = Inr s'
           \<and> length (ll_history s') = 2 + nat (max_iter + 1)))
   \<and> (\<forall>s2. EM_pair s = Inr s2 \<longrightarrow>
         (length (ll_history s2) = 1 \<longrightarrow>
            iterate_loop tolerance max_iter count s = iterate_loop tolerance max_iter count s2)
       \<and> (length (ll_history s2) \<noteq> 1 \<longrightarrow> 2 \<le> length (ll_history s2)))"
  using iterate_exhausts [of s max_iter tolerance]
    iterate_loop_first_pass [of s _ tolerance max_iter count] EM_pair_history_ge_2 [of s]
  by blast

theorem iterate_max_iterations_witness:
  "(\<exists>s'. iterate (Fin 0) 0 c4_state = Inr (MaxIterationsReached, s')
      \<and> EM_pairs (2 + nat (0 + 1)) c4_state = Inr s'
      \<and> length (ll_history s') = 2 + nat (0 + 1))
   \<and> iterate_loop (Fin 0) 0 0 c4_state
     = iterate_loop (Fin 0) 0 0
         (c4_state\<lparr>ll := Some (Fin 0), ll_history := [Fin 0], zs := Some (fin_nd 1 1 [[1]])\<rparr>)"
proof -
  have "\<exists>s'. iterate (Fin 0) 0 c4_state = Inr (MaxIterationsReached, s')
      \<and> EM_pairs (2 + nat (0 + 1)) c4_state = Inr s'
      \<and> length (ll_history s') = 2 + nat (0 + 1)"
    using iterate_max_iterations [of c4_state 0 "Fin 0" 0, THEN conjunct1] c4_pairs
    by (simp add: c4_state_def)
  moreover have "iterate_loop (Fin 0) 0 0 c4_state
     = iterate_loop (Fin 0) 0 0
         (c4_state\<lparr>ll := Some (Fin 0), ll_history := [Fin 0], zs := Some (fin_nd 1 1 [[1]])\<rparr>)"
    using iterate_max_iterations [of c4_state 0 "Fin 0" 0, THEN conjunct2, rule_format,
        OF c4_pass1, THEN conjunct1]
    by simp
  ultimately show ?thesis by blast
qed

lemma f_lt_negative:
  assumes "f_lt x (Fin 0)" and "0 \<le> t"
  shows "f_lt x (Fin t)"
  using assms by (cases x) simp_all

lemma c5_pass1: "EM_pair c5_state
    = Inr (c4_state\<lparr>ll := Some (Fin (ln 2)), ll_history := [Fin (ln 2)],
                    zs := Some (fin_nd 1 1 [[1]])\<rparr>)"
  by (simp add: c5_state_def c4_state_def eval_defs)

lemma ln_2_bound: "1 / 10 ^ 9 < ln (2::real)"
proof -
  have "(1::real) / 2 < ln 2"
    using ln_add1_gt [of "1::real"] by simp
  then show ?thesis by simp
qed

lemma c5_stop:
  "stop_test (Fin (1 / 1000))
     (c4_state\<lparr>ll := Some (Fin 0), ll_history := [Fin (ln 2), Fin 0], zs := z\<rparr>) = Inr True"
proof -
  have "0 < ln (2::real)" by simp
  then have "- ln (2::real) < 1 / 1000" by linarith
  then show ?thesis by (simp add: stop_test_def f_sub_def)
qed

text \<open>
  C5, as claimed: a negative difference of the last two trajectory entries is reported as
  a warning and not as convergence. With the list prior \<open>rho = [2]\<close> (accepted by the
  constructor) the trajectory is \<open>[log 2, 0]\<close>; the difference \<open>- log 2\<close> is below
  \<open>-1e-9\<close>, and \<open>iterate\<close> returns Converged.
\<close>

theorem iterate_converged_on_decrease:
  "EM_algo_init (fin_nd 1 1 [[1]]) 1 (PyList [Fin 2]) PyNone (fin_nd 1 1 [[1]]) = Inr c5_state
   \<and> iterate (Fin (1 / 1000)) 500 c5_state
     = Inr (Converged, c4_state\<lparr>ll := Some (Fin 0), ll_history := [Fin (ln 2), Fin 0],
                                zs := Some (fin_nd 1 1 [[1]])\<rparr>)
   \<and> f_lt (f_sub (Fin 0) (Fin (ln 2))) (Fin (- (1 / 10 ^ 9)))"
proof -
  have "iterate (Fin (1 / 1000)) 500 c5_state
     = Inr (Converged, c4_state\<lparr>ll := Some (Fin 0), ll_history := [Fin (ln 2), Fin 0],
                                zs := Some (fin_nd 1 1 [[1]])\<rparr>)"
    unfolding iterate_def
    apply (subst iterate_loop.simps)
    apply (simp add: c5_pass1)
    apply (subst iterate_loop.simps)
    apply (simp add: EM_pair_fixed_point c5_stop)
    done
  moreover have "EM_algo_init (fin_nd 1 1 [[1]]) 1 (PyList [Fin 2]) PyNone (fin_nd 1 1 [[1]])
      = Inr c5_state"
    by (simp add: EM_algo_init_def c5_state_def fin_nd_def)
  ultimately show ?thesis using ln_2_bound by (simp add: f_sub_def)
qed

text \<open>
  C5, amended: when, after a pass that leaves at least two entries, the difference of the
  last two trajectory entries is negative and the tolerance is not negative, the test
  \<open>difference < tolerance\<close> holds and \<open>iterate\<close> stops at that pass with status Converged;
  there is no other status and no warning.
\<close>

theorem negative_difference_converges:
  assumes "EM_pair s = Inr s2" and "length (ll_history s2) \<noteq> 1"
    and "ll s2 = Some l"
    and "f_lt (f_sub l (ll_history s2 ! (length (ll_history s2) - 2))) (Fin 0)"
    and "0 \<le> t"
  shows "iterate_loop (Fin t) max_iter count s = Inr (Converged, s2)"
proof -
  have "2 \<le> length (ll_history s2)"
    using assms(1,2) by (rule EM_pair_history_ge_2)
  then have "stop_test (Fin t) s2 = Inr True"
    using assms(3) f_lt_negative [OF assms(4,5)] by (simp add: stop_test_def)
  then show ?thesis
    using assms(1,2) by (simp add: iterate_loop.simps [of "Fin t" max_iter count s])
qed

theorem negative_difference_converges_witness:
  "iterate_loop (Fin (1 / 1000)) 500 0
      (c4_state\<lparr>ll := Some (Fin (ln 2)), ll_history := [Fin (ln 2)],
                 zs := Some (fin_nd 1 1 [[1]])\<rparr>)
    = Inr (Converged, c4_state\<lparr>ll := Some (Fin 0), ll_history := [Fin (ln 2), Fin 0],
                                zs := Some (fin_nd 1 1 [[1]])\<rparr>)"
  using negative_difference_converges [OF EM_pair_fixed_point,
      where l = "Fin 0" and l1 = "Some (Fin (ln 2))" and h1 = "[Fin (ln 2)]"
        and z1 = "Some (fin_nd 1 1 [[1]])" and t = "1 / 1000" and max_iter = 500 and count = 0]
  by (simp add: f_sub_def)

section \<open>The likelihood does not decrease\<close>

text \<open>
  The two inequalities behind the EM algorithm, both from \<open>ln x \<le> x - 1\<close>, and the step
  itself over index functions: one E-step and M-step from positive parameters with sums at
  most one do not decrease \<open>\<Sum>d. ln (\<Sum>k. exp (L d k))\<close>.
\<close>

lemma ln_ratio_ge:
  fixes a b :: real
  assumes "0 < a" and "0 < b"
  shows "1 - b / a \<le> ln (a / b)"
proof -
  have "ln (b / a) \<le> b / a - 1"
    using assms by (intro ln_le_minus_one) simp
  moreover have "ln (a / b) = - ln (b / a)"
    using assms by (simp add: ln_div)
  ultimately show ?thesis by simp
qed

lemma gibbs_inequality:
  fixes p q :: "nat \<Rightarrow> real"
  assumes "\<And>i. i < m \<Longrightarrow> 0 < p i" and "\<And>i. i < m \<Longrightarrow> 0 < q i"
  shows "(\<Sum>i<m. p i) - (\<Sum>i<m. q i) \<le> (\<Sum>i<m. p i * ln (p i / q i))"
proof -
  have "p i - q i \<le> p i * ln (p i / q i)" if "i < m" for i
  proof -
    have "p i * (1 - q i / p i) \<le> p i * ln (p i / q i)"
      using ln_ratio_ge [OF assms(1) assms(2), OF that that] assms(1) [OF that]
      by (intro mult_left_mono) simp_all
    moreover have "p i * (1 - q i / p i) = p i - q i"
      using assms(1) [OF that] by (simp add: field_simps)
    ultimately show ?thesis by simp
  qed
  then have "(\<Sum>i<m. p i - q i) \<le> (\<Sum>i<m. p i * ln (p i / q i))"
    by (intro sum_mono) simp
  then show ?thesis by (simp add: sum_subtractf)
qed

lemma jensen_ln:
  fixes z t :: "nat \<Rightarrow> real"
  assumes z: "\<And>i. i < m \<Longrightarrow> 0 < z i" and one: "(\<Sum>i<m. z i) = 1"
    and t: "\<And>i. i < m \<Longrightarrow> 0 < t i"
  shows "(\<Sum>i<m. z i * ln (t i)) \<le> ln (\<Sum>i<m. z i * t i)"
proof -
  define M where "M = (\<Sum>i<m. z i * t i)"
  have "m \<noteq> 0" using one by (cases m) simp_all
  then have M: "0 < M"
    unfolding M_def by (intro sum_pos) (auto simp: z t)
  have "z i * ln (t i) \<le> z i * t i / M - z i + z i * ln M" if "i < m" for i
  proof -
    have "ln (t i / M) \<le> t i / M - 1"
      using t [OF that] M by (intro ln_le_minus_one) simp
    moreover have "ln (t i / M) = ln (t i) - ln M"
      using t [OF that] M by (simp add: ln_div)
    ultimately have "ln (t i) \<le> (t i / M - 1) + ln M" by simp
    then have "z i * ln (t i) \<le> z i * ((t i / M - 1) + ln M)"
      using z [OF that] by (intro mult_left_mono) simp_all
    then show ?thesis by (simp add: algebra_simps)
  qed
  then have "(\<Sum>i<m. z i * ln (t i)) \<le> (\<Sum>i<m. z i * t i / M - z i + z i * ln M)"
    by (intro sum_mono) simp
  also have "\<dots> = (\<Sum>i<m. z i * t i) / M - (\<Sum>i<m. z i) + (\<Sum>i<m. z i) * ln M"
    by (simp add: sum.distrib sum_subtractf sum_divide_distrib sum_distrib_right)
  also have "\<dots> = ln M" using M one by (simp add: M_def [symmetric])
  finally show ?thesis by (simp add: M_def)
qed

lemma em_step_increases:
  fixes x :: "nat \<Rightarrow> nat \<Rightarrow> real" and rho rho' :: "nat \<Rightarrow> real"
    and beta beta' L L' z :: "nat \<Rightarrow> nat \<Rightarrow> real"
  assumes n: "0 < n" and k: "0 < k"
    and x: "\<And>d w. d < n \<Longrightarrow> w < v \<Longrightarrow> 0 \<le> x d w"
    and rho: "\<And>j. j < k \<Longrightarrow> 0 < rho j" and rho1: "(\<Sum>j<k. rho j) \<le> 1"
    and beta: "\<And>j w. j < k \<Longrightarrow> w < v \<Longrightarrow> 0 < beta j w"
    and beta1: "\<And>j. j < k \<Longrightarrow> (\<Sum>w<v. beta j w) \<le> 1"
    and L: "\<And>d j. L d j = ln (rho j) + (\<Sum>w<v. x d w * ln (beta j w))"
    and z: "\<And>d j. z d j = exp (L d j) / (\<Sum>i<k. exp (L d i))"
    and rho': "\<And>j. j < k \<Longrightarrow> rho' j = (\<Sum>d<n. z d j) / real n"
    and beta': "\<And>j w. j < k \<Longrightarrow> w < v \<Longrightarrow>
        beta' j w = (\<Sum>d<n. z d j * x d w) / (\<Sum>u<v. \<Sum>d<n. z d j * x d u)"
    and c: "\<And>j w. j < k \<Longrightarrow> w < v \<Longrightarrow> 0 < (\<Sum>d<n. z d j * x d w)"
    and L': "\<And>d j. L' d j = ln (rho' j) + (\<Sum>w<v. x d w * ln (beta' j w))"
  shows "(\<Sum>d<n. ln (\<Sum>j<k. exp (L d j))) \<le> (\<Sum>d<n. ln (\<Sum>j<k. exp (L' d j)))"
proof -
  define S where "S d = (\<Sum>i<k. exp (L d i))" for d
  define S' where "S' d = (\<Sum>i<k. exp (L' d i))" for d
  define N where "N j = (\<Sum>d<n. z d j)" for j
  define cc where "cc j w = (\<Sum>d<n. z d j * x d w)" for j w
  define C where "C j = (\<Sum>u<v. cc j u)" for j
  have S: "0 < S d" for d
    unfolding S_def using k by (intro sum_pos) auto
  have zpos: "0 < z d j" for d j
    using S [of d] by (simp add: z S_def)
  have zsum: "(\<Sum>j<k. z d j) = 1" for d
    using S [of d] by (simp add: z S_def sum_divide_distrib [symmetric])
  have N: "0 < N j" for j
    unfolding N_def using n zpos by (intro sum_pos) auto
  have Nsum: "(\<Sum>j<k. N j) = real n"
  proof -
    have "(\<Sum>j<k. N j) = (\<Sum>d<n. \<Sum>j<k. z d j)"
      unfolding N_def by (rule sum.swap)
    then show ?thesis by (simp add: zsum)
  qed
  have rho'N: "rho' j = N j / real n" if "j < k" for j
    using rho' [OF that] by (simp add: N_def)
  have ccpos: "0 < cc j w" if "j < k" "w < v" for j w
    using c [OF that] by (simp add: cc_def)
  have Cnonneg: "0 \<le> C j" if "j < k" for j
    unfolding C_def using ccpos [OF that] by (intro sum_nonneg) (simp add: less_imp_le)
  have Cpos: "0 < C j" if "j < k" "w < v" for j w
  proof -
    have "cc j w \<le> C j"
      unfolding C_def using that ccpos [OF that(1)]
      by (intro member_le_sum) (auto simp: less_imp_le)
    then show ?thesis using ccpos [OF that] by simp
  qed
  have beta'C: "beta' j w = cc j w / C j" if "j < k" "w < v" for j w
    using beta' [OF that] by (simp add: cc_def C_def)
  have beta'pos: "0 < beta' j w" if "j < k" "w < v" for j w
    using ccpos [OF that] Cpos [OF that] by (simp add: beta'C [OF that])
  have rho'pos: "0 < rho' j" if "j < k" for j
    using N [of j] n by (simp add: rho'N [OF that])
  have jensen: "(\<Sum>j<k. z d j * (L' d j - L d j)) \<le> ln (S' d) - ln (S d)" for d
  proof -
    have "(\<Sum>j<k. z d j * ln (exp (L' d j - L d j)))
        \<le> ln (\<Sum>j<k. z d j * exp (L' d j - L d j))"
      by (intro jensen_ln) (simp_all add: zpos zsum)
    moreover have "z d j * exp (L' d j - L d j) = exp (L' d j) / S d" for j
      by (simp add: z S_def exp_diff)
    moreover have "0 < S' d"
      unfolding S'_def using k by (intro sum_pos) auto
    ultimately show ?thesis
      using S [of d] by (simp add: sum_divide_distrib [symmetric] S'_def [symmetric] ln_div)
  qed
  have diff: "L' d j - L d j
      = ln (N j / (real n * rho j)) + (\<Sum>w<v. x d w * ln (cc j w / (C j * beta j w)))"
    if "j < k" for d j
  proof -
    have a: "ln (rho' j) - ln (rho j) = ln (N j / (real n * rho j))"
      using rho [OF that] N [of j] n by (simp add: rho'N [OF that] ln_div ln_mult)
    have b: "ln (beta' j w) - ln (beta j w) = ln (cc j w / (C j * beta j w))"
      if "w < v" for w
      using beta [OF \<open>j < k\<close> that] ccpos [OF \<open>j < k\<close> that] Cpos [OF \<open>j < k\<close> that]
      by (simp add: beta'C [OF \<open>j < k\<close> that] ln_div ln_mult)
    have "(\<Sum>w<v. x d w * ln (beta' j w)) - (\<Sum>w<v. x d w * ln (beta j w))
        = (\<Sum>w<v. x d w * (ln (beta' j w) - ln (beta j w)))"
      by (simp add: sum_subtractf right_diff_distrib)
    also have "\<dots> = (\<Sum>w<v. x d w * ln (cc j w / (C j * beta j w)))"
      by (intro sum.cong refl) (simp add: b)
    finally show ?thesis
      using a by (simp add: L L')
  qed
  have split: "(\<Sum>d<n. \<Sum>j<k. z d j * (L' d j - L d j))
      = (\<Sum>j<k. N j * ln (N j / (real n * rho j)))
        + (\<Sum>j<k. \<Sum>w<v. cc j w * ln (cc j w / (C j * beta j w)))"
  proof -
    have "(\<Sum>d<n. \<Sum>j<k. z d j * (L' d j - L d j))
        = (\<Sum>d<n. \<Sum>j<k. z d j * ln (N j / (real n * rho j))
              + (\<Sum>w<v. z d j * x d w * ln (cc j w / (C j * beta j w))))"
      by (intro sum.cong refl) (simp add: diff distrib_left sum_distrib_left mult.assoc)
    also have "\<dots> = (\<Sum>j<k. \<Sum>d<n. z d j * ln (N j / (real n * rho j))
              + (\<Sum>w<v. z d j * x d w * ln (cc j w / (C j * beta j w))))"
      by (rule sum.swap)
    also have "\<dots> = (\<Sum>j<k. N j * ln (N j / (real n * rho j))
              + (\<Sum>w<v. cc j w * ln (cc j w / (C j * beta j w))))"
    proof (intro sum.cong refl)
      fix j
      have "(\<Sum>d<n. \<Sum>w<v. z d j * x d w * ln (cc j w / (C j * beta j w)))
          = (\<Sum>w<v. \<Sum>d<n. z d j * x d w * ln (cc j w / (C j * beta j w)))"
        by (rule sum.swap)
      then show "(\<Sum>d<n. z d j * ln (N j / (real n * rho j))
              + (\<Sum>w<v. z d j * x d w * ln (cc j w / (C j * beta j w))))
          = N j * ln (N j / (real n * rho j))
              + (\<Sum>w<v. cc j w * ln (cc j w / (C j * beta j w)))"
        by (simp add: sum.distrib N_def cc_def sum_distrib_right)
    qed
    finally show ?thesis by (simp add: sum.distrib)
  qed
  have part_rho: "0 \<le> (\<Sum>j<k. N j * ln (N j / (real n * rho j)))"
  proof -
    have "(\<Sum>j<k. N j) - (\<Sum>j<k. real n * rho j) \<le> (\<Sum>j<k. N j * ln (N j / (real n * rho j)))"
      using n by (intro gibbs_inequality) (simp_all add: N rho)
    moreover have "(\<Sum>j<k. real n * rho j) \<le> real n"
      using rho1 n by (simp add: sum_distrib_left [symmetric])
    ultimately show ?thesis using Nsum by simp
  qed
  have part_beta: "0 \<le> (\<Sum>w<v. cc j w * ln (cc j w / (C j * beta j w)))" if "j < k" for j
  proof (cases "v = 0")
    case True
    then show ?thesis by simp
  next
    case False
    then have Cj: "0 < C j" using Cpos [OF that, of 0] by simp
    have "(\<Sum>w<v. cc j w) - (\<Sum>w<v. C j * beta j w)
        \<le> (\<Sum>w<v. cc j w * ln (cc j w / (C j * beta j w)))"
      using Cj by (intro gibbs_inequality) (simp_all add: ccpos that beta)
    moreover have "(\<Sum>w<v. C j * beta j w) \<le> C j"
      using beta1 [OF that] Cj by (simp add: sum_distrib_left [symmetric])
    ultimately show ?thesis by (simp add: C_def)
  qed
  have "0 \<le> (\<Sum>j<k. \<Sum>w<v. cc j w * ln (cc j w / (C j * beta j w)))"
    by (rule sum_nonneg) (simp add: part_beta)
  then have "0 \<le> (\<Sum>d<n. \<Sum>j<k. z d j * (L' d j - L d j))"
    unfolding split using part_rho by simp
  also have "\<dots> \<le> (\<Sum>d<n. ln (S' d) - ln (S d))"
    by (intro sum_mono jensen)
  finally show ?thesis
    by (simp add: sum_subtractf S_def S'_def)
qed

section \<open>The trajectory of a fit\<close>

lemma spec_ll_lse:
  assumes "0 < length rho"
  shows "spec_ll X rho beta
      = (\<Sum>d<length X. ln (\<Sum>j<length rho. exp (spec_L X rho beta d j)))"
proof -
  have "spec_B X rho beta d
        + ln (\<Sum>k<length rho. exp (spec_L X rho beta d k - spec_B X rho beta d))
      = ln (\<Sum>j<length rho. exp (spec_L X rho beta d j))" for d
  proof -
    have pos: "0 < (\<Sum>j<length rho. exp (spec_L X rho beta d j))"
      using assms by (intro sum_pos) auto
    have "(\<Sum>k<length rho. exp (spec_L X rho beta d k - spec_B X rho beta d))
        = (\<Sum>j<length rho. exp (spec_L X rho beta d j)) / exp (spec_B X rho beta d)"
      by (simp add: exp_diff sum_divide_distrib)
    then show ?thesis using pos by (simp add: ln_div)
  qed
  then show ?thesis by (simp add: spec_ll_def)
qed

lemma spec_Z_nth:
  assumes "d < length X" and "j < length rho"
  shows "spec_Z X rho beta ! d ! j
      = exp (spec_L X rho beta d j) / (\<Sum>i<length rho. exp (spec_L X rho beta d i))"
  using assms by (simp add: spec_Z_def spec_L_matrix_def comp_def sum_list_upt)

lemma spec_Z_matrix: "is_matrix (length X) (length rho) (spec_Z X rho beta)"
  by (simp add: is_matrix_def spec_Z_def spec_L_matrix_def list_all_iff)

lemma nd_map_exp_fin: "nd_map f_exp (fin_nd n m M) = fin_nd n m (map (map exp) M)"
  by (simp add: nd_map_def fin_nd_def)

lemma E_step_fin:
  assumes "0 < K s"
    and "is_matrix (D s) v X" and "data s = fin_nd (D s) v X"
    and "length rho = K s" and "list_all (\<lambda>x. 0 < x) rho" and "rhos s = map Fin rho"
    and "is_matrix (K s) v beta" and "list_all (list_all (\<lambda>x. 0 < x)) beta"
    and "betas s = fin_nd (K s) v beta"
  shows "E_step s = Inr (s\<lparr>ll := Some (Fin (spec_ll X rho beta)),
              ll_history := ll_history s @ [Fin (spec_ll X rho beta)],
              zs := Some (fin_nd (D s) (K s) (spec_Z X rho beta))\<rparr>)"
proof -
  have dt: "E_step_dt_temp s = Inr (fin_nd (D s) (K s) (spec_L_matrix X rho beta))"
    by (rule E_step_dt_temp_fin) fact+
  have len: "\<And>r. r \<in> set (spec_L_matrix X rho beta) \<Longrightarrow> length r = K s"
    using assms(4) by (auto simp: spec_L_matrix_def)
  then have ll: "E_step_complete_ll (fin_nd (D s) (K s) (spec_L_matrix X rho beta))
        (fin_nd (D s) (K s) (spec_L_matrix X rho beta))
      = Inr (Fin (spec_ll X rho beta))"
    using complete_ll_fin [OF assms(1), of "spec_L_matrix X rho beta" "D s"]
      spec_ll_matrix [of rho X beta] assms(1,4)
    by (simp add: E_step_complete_ll_def complete_ll_def)
  have "list_all (\<lambda>r. sum_list r \<noteq> 0) (map (map exp) (spec_L_matrix X rho beta))"
    unfolding list_all_iff
  proof
    fix r assume "r \<in> set (map (map exp) (spec_L_matrix X rho beta))"
    then obtain r' where r': "r' \<in> set (spec_L_matrix X rho beta)" "r = map exp r'" by auto
    then have "r' \<noteq> []" using len assms(1) by fastforce
    then have "0 < (\<Sum>x\<leftarrow>r'. exp (x - 0))" by (rule sum_exp_pos)
    then show "sum_list r \<noteq> 0" using r'(2) by simp
  qed
  then have "normalize_rows (nd_map f_exp (fin_nd (D s) (K s) (spec_L_matrix X rho beta)))
      = fin_nd (D s) (K s) (spec_Z X rho beta)"
    by (simp add: nd_map_exp_fin normalize_rows_fin spec_Z_def comp_def)
  with dt ll show ?thesis by (simp add: E_step_def)
qed

lemma valid_state_nonempty:
  assumes "valid_state X n v k s rho beta"
  shows "0 < n" and "0 < k" and "0 < v"
proof -
  have "sum_list rho = 1" and "length rho = k" using assms by (simp_all add: valid_state_def)
  then show k: "0 < k" by (cases rho) auto
  have b: "is_matrix k v beta" and one: "list_all (\<lambda>r. sum_list r = 1) beta"
    using assms by (simp_all add: valid_state_def)
  have "sum_list (beta ! 0) = 1"
    using one k is_matrixD(1) [OF b] by (simp add: list_all_length)
  then have "beta ! 0 \<noteq> []" by auto
  then show v: "0 < v" using is_matrixD(2) [OF b k] by (cases "beta ! 0") auto
  have "\<forall>w<v. \<exists>d<n. 0 < X ! d ! w" using assms by (simp add: valid_state_def)
  with v show "0 < n" by fastforce
qed

lemma valid_state_dims:
  assumes "valid_state X n v k s rho beta"
  shows "length X = n" and "length rho = k" and "length beta = k" and "0 < v"
    and "\<And>d. d < n \<Longrightarrow> length (X ! d) = v" and "\<And>j. j < k \<Longrightarrow> length (beta ! j) = v"
proof -
  have X: "is_matrix n v X" and b: "is_matrix k v beta"
    and one: "list_all (\<lambda>r. sum_list r = 1) beta"
    using assms by (simp_all add: valid_state_def)
  have k: "0 < k" using assms by (rule valid_state_nonempty)
  show "length X = n" "\<And>d. d < n \<Longrightarrow> length (X ! d) = v"
    using is_matrixD(1,2) [OF X] by simp_all
  show "length rho = k" using assms by (simp add: valid_state_def)
  show lb: "length beta = k" "\<And>j. j < k \<Longrightarrow> length (beta ! j) = v"
    using is_matrixD(1,2) [OF b] by simp_all
  have "sum_list (beta ! 0) = 1" using one k lb(1) by (simp add: list_all_length)
  then have "beta ! 0 \<noteq> []" by auto
  then show "0 < v" using lb(2) [OF k] by (cases "beta ! 0") auto
qed

lemma valid_state_pos:
  assumes "valid_state X n v k s rho beta"
  shows "\<And>d w. d < n \<Longrightarrow> w < v \<Longrightarrow> 0 \<le> X ! d ! w"
    and "\<And>j. j < k \<Longrightarrow> 0 < rho ! j"
    and "\<And>j w. j < k \<Longrightarrow> w < v \<Longrightarrow> 0 < beta ! j ! w"
    and "(\<Sum>j<k. rho ! j) = 1"
    and "\<And>j. j < k \<Longrightarrow> (\<Sum>w<v. beta ! j ! w) = 1"
proof -
  note dims = valid_state_dims [OF assms]
  show "0 \<le> X ! d ! w" if "d < n" "w < v" for d w
    using assms that dims(1) dims(5) [OF that(1)]
    by (simp add: valid_state_def list_all_length)
  show "0 < rho ! j" if "j < k" for j
    using assms that by (simp add: valid_state_def list_all_length)
  show "0 < beta ! j ! w" if "j < k" "w < v" for j w
    using assms that dims(3) dims(6) [OF that(1)]
    by (simp add: valid_state_def list_all_length)
  show "(\<Sum>j<k. rho ! j) = 1"
  proof -
    have "sum_list rho = 1" using assms by (simp add: valid_state_def)
    then show ?thesis using sum_list_nth [of rho] dims(2) by simp
  qed
  show "(\<Sum>w<v. beta ! j ! w) = 1" if "j < k" for j
  proof -
    have "sum_list (beta ! j) = 1"
      using assms that dims(3) by (simp add: valid_state_def list_all_length)
    then show ?thesis using sum_list_nth [of "beta ! j"] dims(6) [OF that] by simp
  qed
qed

lemma spec_Z_valid:
  assumes valid: "valid_state X n v k s rho beta"
  shows "is_matrix n k (spec_Z X rho beta)"
    and "\<And>d j. d < n \<Longrightarrow> j < k \<Longrightarrow> 0 < spec_Z X rho beta ! d ! j"
    and "list_all (\<lambda>r. sum_list r = 1) (spec_Z X rho beta)"
    and "\<And>j w. j < k \<Longrightarrow> w < v \<Longrightarrow> 0 < (\<Sum>d<n. spec_Z X rho beta ! d ! j * X ! d ! w)"
    and "\<forall>j<k. (\<Sum>d<n. spec_Z X rho beta ! d ! j * (\<Sum>w<v. X ! d ! w)) \<noteq> 0"
proof -
  note dims = valid_state_dims [OF valid]
  note pos = valid_state_pos [OF valid]
  have k: "0 < k" using valid by (rule valid_state_nonempty)
  let ?Z = "spec_Z X rho beta"
  show M: "is_matrix n k ?Z"
    using spec_Z_matrix [of X rho beta] dims(1,2) by simp
  have S: "0 < (\<Sum>i<k. exp (spec_L X rho beta d i))" for d
    using k by (intro sum_pos) auto
  show zpos: "0 < ?Z ! d ! j" if "d < n" "j < k" for d j
    using that dims(1,2) S [of d] by (simp add: spec_Z_nth)
  show "list_all (\<lambda>r. sum_list r = 1) ?Z"
    unfolding list_all_length
  proof (intro allI impI)
    fix d assume "d < length ?Z"
    then have d: "d < n" using is_matrixD(1) [OF M] by simp
    have "sum_list (?Z ! d) = (\<Sum>j<k. ?Z ! d ! j)"
      using sum_list_nth [of "?Z ! d"] is_matrixD(2) [OF M d] by simp
    also have "\<dots> = (\<Sum>j<k. exp (spec_L X rho beta d j) / (\<Sum>i<k. exp (spec_L X rho beta d i)))"
      using d dims(1,2) by (intro sum.cong refl) (simp add: spec_Z_nth)
    also have "\<dots> = 1"
      using S [of d] by (simp add: sum_divide_distrib [symmetric])
    finally show "sum_list (?Z ! d) = 1" .
  qed
  show cpos: "0 < (\<Sum>d<n. ?Z ! d ! j * X ! d ! w)" if "j < k" "w < v" for j w
  proof -
    from valid that(2) obtain d0 where d0: "d0 < n" "0 < X ! d0 ! w"
      by (auto simp: valid_state_def)
    have "0 < ?Z ! d0 ! j * X ! d0 ! w"
      using zpos [OF d0(1) that(1)] d0(2) by simp
    moreover have "0 \<le> ?Z ! d ! j * X ! d ! w" if "d \<in> {..<n}" for d
      using zpos [of d j] pos(1) [of d w] that \<open>j < k\<close> \<open>w < v\<close> by (simp add: less_imp_le)
    ultimately show ?thesis
      using d0(1) by (intro sum_pos2 [of _ d0]) simp_all
  qed
  show "\<forall>j<k. (\<Sum>d<n. ?Z ! d ! j * (\<Sum>w<v. X ! d ! w)) \<noteq> 0"
  proof (intro allI impI)
    fix j assume j: "j < k"
    have "(\<Sum>d<n. ?Z ! d ! j * (\<Sum>w<v. X ! d ! w)) = (\<Sum>d<n. \<Sum>w<v. ?Z ! d ! j * X ! d ! w)"
      by (simp add: sum_distrib_left)
    also have "\<dots> = (\<Sum>w<v. \<Sum>d<n. ?Z ! d ! j * X ! d ! w)"
      by (rule sum.swap)
    finally have "(\<Sum>d<n. ?Z ! d ! j * (\<Sum>w<v. X ! d ! w))
        = (\<Sum>w<v. \<Sum>d<n. ?Z ! d ! j * X ! d ! w)" .
    moreover have "0 < (\<Sum>w<v. \<Sum>d<n. ?Z ! d ! j * X ! d ! w)"
      by (rule sum_pos) (use dims(4) cpos [OF j] in auto)
    ultimately show "(\<Sum>d<n. ?Z ! d ! j * (\<Sum>w<v. X ! d ! w)) \<noteq> 0" by simp
  qed
qed

lemma spec_beta_nth:
  assumes "j < k" and "w < v"
  shows "spec_beta Z X k v ! j ! w
      = (\<Sum>d<length Z. Z ! d ! j * X ! d ! w) / (\<Sum>u<v. \<Sum>d<length Z. Z ! d ! j * X ! d ! u)"
  using assms by (simp add: spec_beta_def spec_raw_def sum_list_upt comp_def)

lemma spec_rho_nth:
  assumes "j < k"
  shows "spec_rho Z k ! j = (\<Sum>d<length Z. Z ! d ! j) / real (length Z)"
  using assms by (simp add: spec_rho_def)

lemma EM_params_valid:
  assumes valid: "valid_state X n v k s rho beta"
    and s2: "D s2 = D s" "K s2 = K s" "data s2 = data s"
      "rhos s2 = map Fin (spec_rho (spec_Z X rho beta) k)"
      "betas s2 = fin_nd k v (spec_beta (spec_Z X rho beta) X k v)"
  shows "valid_state X n v k s2 (spec_rho (spec_Z X rho beta) k)
           (spec_beta (spec_Z X rho beta) X k v)"
proof -
  note dims = valid_state_dims [OF valid]
  note Z = spec_Z_valid [OF valid]
  let ?Z = "spec_Z X rho beta"
  have n: "0 < n" and k: "0 < k" using valid_state_nonempty [OF valid] by simp_all
  have lZ: "length ?Z = n" using Z(1) by (rule is_matrixD)
  have rho_pos: "list_all (\<lambda>x. 0 < x) (spec_rho ?Z k)"
    unfolding list_all_length
  proof (intro allI impI)
    fix j assume "j < length (spec_rho ?Z k)"
    then have j: "j < k" by (simp add: spec_rho_def)
    have "0 < (\<Sum>d<n. ?Z ! d ! j)"
      using n Z(2) j by (intro sum_pos) auto
    then show "0 < spec_rho ?Z k ! j"
      using n by (simp add: spec_rho_nth [OF j] lZ)
  qed
  have beta_pos: "list_all (list_all (\<lambda>x. 0 < x)) (spec_beta ?Z X k v)"
    unfolding list_all_length
  proof (intro allI impI)
    fix j w assume "j < length (spec_beta ?Z X k v)"
      and "w < length (spec_beta ?Z X k v ! j)"
    then have j: "j < k" and w: "w < v" by (simp_all add: spec_beta_def spec_raw_def)
    have "0 < (\<Sum>u<v. \<Sum>d<n. ?Z ! d ! j * X ! d ! u)"
      by (rule sum_pos) (use dims(4) Z(4) [OF j] in auto)
    then show "0 < spec_beta ?Z X k v ! j ! w"
      using Z(4) [OF j w] by (simp add: spec_beta_nth [OF j w] lZ)
  qed
  have "sum_list (spec_rho ?Z k) = 1"
    using n Z(1,3) by (rule sum_list_spec_rho)
  moreover have "is_matrix k v (spec_beta ?Z X k v)"
    "list_all (\<lambda>r. sum_list r = 1) (spec_beta ?Z X k v)"
    using spec_beta_rows [where k = k and Z = ?Z and v = v and X = X] Z(5) lZ by simp_all
  moreover have "length (spec_rho ?Z k) = k" by (simp add: spec_rho_def)
  ultimately show ?thesis
    using valid s2 rho_pos beta_pos by (simp add: valid_state_def)
qed

lemma EM_likelihood_increases:
  assumes valid: "valid_state X n v k s rho beta"
  shows "spec_ll X rho beta
      \<le> spec_ll X (spec_rho (spec_Z X rho beta) k) (spec_beta (spec_Z X rho beta) X k v)"
proof -
  note dims = valid_state_dims [OF valid]
  note pos = valid_state_pos [OF valid]
  note Z = spec_Z_valid [OF valid]
  let ?Z = "spec_Z X rho beta"
  let ?rho' = "spec_rho ?Z k"
  let ?beta' = "spec_beta ?Z X k v"
  have n: "0 < n" and k: "0 < k" using valid_state_nonempty [OF valid] by simp_all
  have lZ: "length ?Z = n" using Z(1) by (rule is_matrixD)
  have lrho': "length ?rho' = k" by (simp add: spec_rho_def)
  define L where "L d j = ln (rho ! j) + (\<Sum>w<v. X ! d ! w * ln (beta ! j ! w))" for d j
  define z where "z d j = exp (L d j) / (\<Sum>i<k. exp (L d i))" for d j
  define L' where "L' d j = ln (?rho' ! j) + (\<Sum>w<v. X ! d ! w * ln (?beta' ! j ! w))" for d j
  have LL: "spec_L X rho beta d j = L d j" if "d < n" for d j
    using that dims(5) by (simp add: spec_L_def L_def)
  have LL': "spec_L X ?rho' ?beta' d j = L' d j" if "d < n" for d j
    using that dims(5) by (simp add: spec_L_def L'_def)
  have Zz: "?Z ! d ! j = z d j" if "d < n" "j < k" for d j
    using that dims(1,2) by (simp add: spec_Z_nth z_def LL)
  have "(\<Sum>d<n. ln (\<Sum>j<k. exp (L d j))) \<le> (\<Sum>d<n. ln (\<Sum>j<k. exp (L' d j)))"
  proof (rule em_step_increases [where x = "\<lambda>d w. X ! d ! w" and rho = "\<lambda>j. rho ! j"
        and beta = "\<lambda>j w. beta ! j ! w" and z = z and rho' = "\<lambda>j. ?rho' ! j"
        and beta' = "\<lambda>j w. ?beta' ! j ! w" and v = v])
    show "0 < n" "0 < k" by fact+
    show "\<And>d w. d < n \<Longrightarrow> w < v \<Longrightarrow> 0 \<le> X ! d ! w" by (rule pos(1))
    show "\<And>j. j < k \<Longrightarrow> 0 < rho ! j" by (rule pos(2))
    show "(\<Sum>j<k. rho ! j) \<le> 1" using pos(4) by simp
    show "\<And>j w. j < k \<Longrightarrow> w < v \<Longrightarrow> 0 < beta ! j ! w" by (rule pos(3))
    show "\<And>j. j < k \<Longrightarrow> (\<Sum>w<v. beta ! j ! w) \<le> 1" using pos(5) by simp
    show "\<And>d j. L d j = ln (rho ! j) + (\<Sum>w<v. X ! d ! w * ln (beta ! j ! w))"
      by (simp add: L_def)
    show "\<And>d j. z d j = exp (L d j) / (\<Sum>i<k. exp (L d i))" by (simp add: z_def)
    show "?rho' ! j = (\<Sum>d<n. z d j) / real n" if "j < k" for j
      using that by (simp add: spec_rho_nth lZ Zz)
    show "?beta' ! j ! w = (\<Sum>d<n. z d j * X ! d ! w) / (\<Sum>u<v. \<Sum>d<n. z d j * X ! d ! u)"
      if "j < k" "w < v" for j w
      using that by (simp add: spec_beta_nth lZ Zz)
    show "0 < (\<Sum>d<n. z d j * X ! d ! w)" if "j < k" "w < v" for j w
      using Z(4) [OF that] that by (simp add: Zz)
    show "\<And>d j. L' d j = ln (?rho' ! j) + (\<Sum>w<v. X ! d ! w * ln (?beta' ! j ! w))"
      by (simp add: L'_def)
  qed
  then show ?thesis
    using k by (simp add: spec_ll_lse dims(1,2) lrho' LL LL')
qed

lemma EM_pair_valid:
  assumes valid: "valid_state X n v k s rho beta"
  shows "\<exists>rho' beta' s2. EM_pair s = Inr s2 \<and> valid_state X n v k s2 rho' beta'
      \<and> ll s2 = Some (Fin (spec_ll X rho beta))
      \<and> ll_history s2 = ll_history s @ [Fin (spec_ll X rho beta)]
      \<and> spec_ll X rho beta \<le> spec_ll X rho' beta'"
proof -
  note Z = spec_Z_valid [OF valid]
  let ?Z = "spec_Z X rho beta"
  let ?s1 = "s\<lparr>ll := Some (Fin (spec_ll X rho beta)),
              ll_history := ll_history s @ [Fin (spec_ll X rho beta)],
              zs := Some (fin_nd (D s) (K s) ?Z)\<rparr>"
  let ?s2 = "?s1\<lparr>rhos := map Fin (spec_rho ?Z k), betas := fin_nd k v (spec_beta ?Z X k v)\<rparr>"
  have v: "0 < n" "0 < k" "D s = n" "K s = k" "is_matrix n v X" "data s = fin_nd n v X"
    using valid valid_state_nonempty [OF valid] by (simp_all add: valid_state_def)
  have E: "E_step s = Inr ?s1"
    by (rule E_step_fin [where v = v]) (use valid v in \<open>simp_all add: valid_state_def\<close>)
  have M: "M_step ?s1 = Inr ?s2"
    by (rule M_step_fin [where n = n]) (use v Z in simp_all)
  show ?thesis
  proof (intro exI conjI)
    show "EM_pair s = Inr ?s2" using E M by (simp add: EM_pair_def)
    show "valid_state X n v k ?s2 (spec_rho ?Z k) (spec_beta ?Z X k v)"
      by (rule EM_params_valid [OF valid]) simp_all
    show "ll ?s2 = Some (Fin (spec_ll X rho beta))" by simp
    show "ll_history ?s2 = ll_history s @ [Fin (spec_ll X rho beta)]" by simp
    show "spec_ll X rho beta \<le> spec_ll X (spec_rho ?Z k) (spec_beta ?Z X k v)"
      by (rule EM_likelihood_increases [OF valid])
  qed
qed

lemma iterate_loop_sorted:
  assumes "valid_state X n v k s rho beta" and "ll_history s = map Fin hs" and "sorted hs"
    and "\<forall>a\<in>set hs. a \<le> spec_ll X rho beta"
  shows "\<exists>st s' hs'. iterate_loop tolerance max_iter count s = Inr (st, s')
           \<and> ll_history s' = map Fin hs' \<and> sorted hs'"
  using assms
proof (induction tolerance max_iter count s arbitrary: rho beta hs rule: iterate_loop.induct)
  case (1 tolerance max_iter count s)
  note unfold = iterate_loop.simps [of tolerance max_iter count s]
  from EM_pair_valid [OF "1.prems"(1)] obtain rho' beta' s2 where
    pair: "EM_pair s = Inr s2" and valid': "valid_state X n v k s2 rho' beta'"
    and ll2: "ll s2 = Some (Fin (spec_ll X rho beta))"
    and hist2: "ll_history s2 = ll_history s @ [Fin (spec_ll X rho beta)]"
    and mono: "spec_ll X rho beta \<le> spec_ll X rho' beta'"
    by blast
  let ?hs2 = "hs @ [spec_ll X rho beta]"
  have h2: "ll_history s2 = map Fin ?hs2" using hist2 "1.prems"(2) by simp
  have sorted2: "sorted ?hs2" using "1.prems"(3,4) by (simp add: sorted_append)
  have bound2: "\<forall>a\<in>set ?hs2. a \<le> spec_ll X rho' beta'"
    using "1.prems"(4) mono by auto
  show ?case
  proof (cases "length (ll_history s2) = 1")
    case True
    from "1.IH"(1) [OF pair True valid' h2 sorted2 bound2] show ?thesis
      using pair True unfold by simp
  next
    case False
    then have "2 \<le> length (ll_history s2)" using pair by (intro EM_pair_history_ge_2)
    then obtain stop where stop: "stop_test tolerance s2 = Inr stop"
      using ll2 by (simp add: stop_test_def)
    show ?thesis
    proof (cases "stop \<or> count > max_iter")
      case True
      then have "iterate_loop tolerance max_iter count s = Inr (Converged, s2)
          \<or> iterate_loop tolerance max_iter count s = Inr (MaxIterationsReached, s2)"
        using pair False stop unfold by auto
      then show ?thesis using h2 sorted2 by blast
    next
      case cont: False
      then have "\<not> stop" "\<not> count > max_iter" by simp_all
      from "1.IH"(2) [OF pair False stop this valid' h2 sorted2 bound2] show ?thesis
        using pair False stop cont unfold by simp
    qed
  qed
qed

lemma iterate_loop_continue:
  assumes "EM_pair s = Inr s2" and "length (ll_history s2) \<noteq> 1"
    and "stop_test tolerance s2 = Inr False" and "\<not> count > max_iter"
  shows "iterate_loop tolerance max_iter count s = iterate_loop tolerance max_iter (count + 1) s2"
  using assms by (simp add: iterate_loop.simps [of tolerance max_iter count s])

lemma iterate_loop_max_iterations:
  assumes "EM_pair s = Inr s2" and "length (ll_history s2) \<noteq> 1"
    and "stop_test tolerance s2 = Inr False" and "count > max_iter"
  shows "iterate_loop tolerance max_iter count s = Inr (MaxIterationsReached, s2)"
  using assms by (simp add: iterate_loop.simps [of tolerance max_iter count s])

lemma c8_range_valid:
  "valid_state [[1, 0], [0, 1]] 2 2 2 c8_range_state [1/2, 1/2] [[1/4, 3/4], [1/4, 3/4]]"
proof -
  have "\<exists>d<2. 0 < [[1, 0], [0, 1 :: real]] ! d ! w" if "w < 2" for w :: nat
  proof -
    from that consider "w = 0" | "w = 1" by linarith
    then show ?thesis
    proof cases
      case 1
      then show ?thesis by (intro exI [of _ 0]) simp
    next
      case 2
      then show ?thesis by (intro exI [of _ 1]) simp
    qed
  qed
  then show ?thesis
    by (simp add: valid_state_def c8_range_state_def is_matrix_def)
qed

lemma half_exp: "exp a / (exp a + exp a) = (1/2 :: real)" "exp a / (2 * exp a) = (1/2 :: real)"
  by (simp_all add: field_simps)

lemma c8_range_dt0: "E_step_dt_temp c8_range_state
    = Inr (fin_nd 2 2 [[ln (1/2) + ln (1/4), ln (1/2) + ln (1/4)],
                       [ln (1/2) + ln (3/4), ln (1/2) + ln (3/4)]])"
  by (simp add: c8_range_state_def eval_defs)

lemma c8_range_dt1: "E_step_dt_temp (c8_range_fixed h)
    = Inr (fin_nd 2 2 [[2 * ln (1/2), 2 * ln (1/2)], [2 * ln (1/2), 2 * ln (1/2)]])"
  by (simp add: c8_range_fixed_def eval_defs)

lemma c8_range_pass1: "EM_pair c8_range_state = Inr (c8_range_fixed [Fin (ln (1/4) + ln (3/4))])"
  by (simp add: c8_range_state_def c8_range_fixed_def eval_defs half_exp ln_div)

lemma c8_range_pass2:
  "h \<noteq> [] \<Longrightarrow> EM_pair (c8_range_fixed h) = Inr (c8_range_fixed (h @ [Fin (2 * ln (1/2))]))"
  by (simp add: c8_range_fixed_def eval_defs half_exp ln_div)

lemma c8_range_bounds:
  "- 700 \<le> ln (1/2) + ln (1/4 :: real)" "ln (1/2) + ln (1/4 :: real) \<le> 700"
  "- 700 \<le> ln (1/2) + ln (3/4 :: real)" "ln (1/2) + ln (3/4 :: real) \<le> 700"
  "- 700 \<le> 2 * ln (1/2 :: real)" "2 * ln (1/2 :: real) \<le> 700"
  "ln (1/4) + ln (3/4 :: real) + 1 / 1000 \<le> 2 * ln (1/2)"
proof -
  have l2: "1 / 2 < ln (2::real)" "ln (2::real) \<le> 1"
    using ln_add1_gt [of "1::real"] ln_le_minus_one [of "2::real"] by simp_all
  have l4: "ln (1/4 :: real) = - 2 * ln 2"
    using ln_realpow [of 2 2] by (simp add: ln_div)
  have l34: "ln (3/4 :: real) \<le> - (1/4)" "- 1 \<le> ln (3/4 :: real)"
  proof -
    show "ln (3/4 :: real) \<le> - (1/4)" using ln_le_minus_one [of "3/4 :: real"] by simp
    have "ln (4/3 :: real) \<le> 4/3 - 1" by (rule ln_le_minus_one) simp
    moreover have "ln (3/4 :: real) = - ln (4/3)" by (simp add: ln_div)
    ultimately show "- 1 \<le> ln (3/4 :: real)" by simp
  qed
  have lh: "ln (1/2 :: real) = - ln 2" by (simp add: ln_div)
  show "- 700 \<le> ln (1/2) + ln (1/4 :: real)" using l2 l4 lh by linarith
  show "ln (1/2) + ln (1/4 :: real) \<le> 700" using l2 l4 lh by linarith
  show "- 700 \<le> ln (1/2) + ln (3/4 :: real)" using l2 l34 lh by linarith
  show "ln (1/2) + ln (3/4 :: real) \<le> 700" using l2 l34 lh by linarith
  show "- 700 \<le> 2 * ln (1/2 :: real)" using l2 lh by linarith
  show "2 * ln (1/2 :: real) \<le> 700" using l2 lh by linarith
  show "ln (1/4) + ln (3/4 :: real) + 1 / 1000 \<le> 2 * ln (1/2)" using l4 l34 lh by linarith
qed

lemma iterate_loop_converged:
  assumes "EM_pair s = Inr s2" and "length (ll_history s2) \<noteq> 1"
    and "stop_test tolerance s2 = Inr True"
  shows "iterate_loop tolerance max_iter count s = Inr (Converged, s2)"
  using assms by (simp add: iterate_loop.simps [of tolerance max_iter count s])

lemma c8_range_run: "iterate (Fin (1 / 1000)) 500 c8_range_state
    = Inr (Converged, c8_range_fixed
        [Fin (ln (1/4) + ln (3/4)), Fin (2 * ln (1/2)), Fin (2 * ln (1/2))])"
proof -
  have "iterate (Fin (1 / 1000)) 500 c8_range_state
      = iterate_loop (Fin (1 / 1000)) 500 0 (c8_range_fixed [Fin (ln (1/4) + ln (3/4))])"
    unfolding iterate_def by (rule iterate_loop_first_pass [OF c8_range_pass1])
      (simp add: c8_range_fixed_def)
  also have "\<dots> = iterate_loop (Fin (1 / 1000)) 500 (0 + 1)
      (c8_range_fixed ([Fin (ln (1/4) + ln (3/4))] @ [Fin (2 * ln (1/2))]))"
    by (rule iterate_loop_continue [OF c8_range_pass2])
      (use c8_range_bounds(7) in \<open>simp_all add: c8_range_fixed_def stop_test_def f_sub_def\<close>)
  also have "\<dots> = Inr (Converged, c8_range_fixed
      (([Fin (ln (1/4) + ln (3/4))] @ [Fin (2 * ln (1/2))]) @ [Fin (2 * ln (1/2))]))"
    by (rule iterate_loop_converged [OF c8_range_pass2])
      (simp_all add: c8_range_fixed_def stop_test_def f_sub_def)
  finally show ?thesis by simp
qed

lemma c8_range_pairs:
  assumes "m < 3"
  shows "\<exists>s_m. EM_pairs m c8_range_state = Inr s_m \<and> log_weights_in_range s_m"
proof -
  from assms consider "m = 0" | "m = 1" | "m = 2" by linarith
  then show ?thesis
  proof cases
    case 1
    then show ?thesis
      using c8_range_bounds by (simp add: log_weights_in_range_def c8_range_dt0 fin_nd_def)
  next
    case 2
    then show ?thesis
      using c8_range_bounds
      by (simp add: log_weights_in_range_def c8_range_pass1 c8_range_dt1 fin_nd_def)
  next
    case 3
    then show ?thesis
      using c8_range_bounds
      by (simp add: numeral_2_eq_2 log_weights_in_range_def c8_range_pass1 c8_range_pass2
          c8_range_dt1 fin_nd_def)
  qed
qed

lemma c8_pass1: "EM_pair c8_state
    = Inr (c4_state\<lparr>ll := Some (Fin (ln 2)), ll_history := [Fin (ln 2)],
                    zs := Some (fin_nd 1 1 [[1]])\<rparr>)"
  by (simp add: c8_state_def c4_state_def eval_defs)

lemma c8_run: "iterate (Fin (1 / 1000)) 500 c8_state
     = Inr (Converged, c4_state\<lparr>ll := Some (Fin 0), ll_history := [Fin (ln 2), Fin 0],
                                zs := Some (fin_nd 1 1 [[1]])\<rparr>)"
  unfolding iterate_def
  apply (subst iterate_loop.simps)
  apply (simp add: c8_pass1)
  apply (subst iterate_loop.simps)
  apply (simp add: EM_pair_fixed_point c5_stop)
  done

lemma c8_zero_pass1: "EM_pair c8_zero_column_state
    = Inr (c8_zero_column_state\<lparr>betas := fin_nd 1 2 [[1, 0]], ll := Some (Fin (- ln 2)),
             ll_history := [Fin (- ln 2)], zs := Some (fin_nd 1 1 [[1]])\<rparr>)"
  by (simp add: c8_zero_column_state_def eval_defs ln_div)

lemma c8_zero_pass2: "EM_pair (c8_zero_column_state\<lparr>betas := fin_nd 1 2 [[1, 0]],
             ll := Some (Fin (- ln 2)), ll_history := [Fin (- ln 2)],
             zs := Some (fin_nd 1 1 [[1]])\<rparr>)
    = Inr (c8_nan_state [Fin (- ln 2), NaN])"
  by (simp add: c8_zero_column_state_def c8_nan_state_def eval_defs)

lemma c8_zero_pass3: "EM_pair (c8_nan_state h) = Inr (c8_nan_state (h @ [NaN]))"
  by (simp add: c8_nan_state_def eval_defs)

lemma c8_zero_run: "iterate (Fin (1 / 1000)) 0 c8_zero_column_state
     = Inr (MaxIterationsReached, c8_nan_state [Fin (- ln 2), NaN, NaN])"
proof -
  have "iterate (Fin (1 / 1000)) 0 c8_zero_column_state
      = iterate_loop (Fin (1 / 1000)) 0 0 (c8_zero_column_state\<lparr>betas := fin_nd 1 2 [[1, 0]],
             ll := Some (Fin (- ln 2)), ll_history := [Fin (- ln 2)],
             zs := Some (fin_nd 1 1 [[1]])\<rparr>)"
    unfolding iterate_def by (rule iterate_loop_first_pass [OF c8_zero_pass1]) simp
  also have "\<dots> = iterate_loop (Fin (1 / 1000)) 0 (0 + 1) (c8_nan_state [Fin (- ln 2), NaN])"
    by (rule iterate_loop_continue [OF c8_zero_pass2])
      (simp_all add: c8_nan_state_def stop_test_def f_sub_def)
  also have "\<dots> = Inr (MaxIterationsReached, c8_nan_state ([Fin (- ln 2), NaN] @ [NaN]))"
    by (rule iterate_loop_max_iterations [OF c8_zero_pass3])
      (simp_all add: c8_nan_state_def stop_test_def f_sub_def)
  finally show ?thesis by simp
qed

text \<open>
  C8, as claimed: in every run of the fit each trajectory entry is at least the one before
  it, up to \<open>1e-9\<close>. Two runs from the constructor say otherwise. With the list prior
  \<open>beta = [[2]]\<close>, which the constructor stores as it is, the trajectory is \<open>[log 2, 0]\<close>.
  With the count row \<open>[1, 0]\<close>, whose second term occurs in no document, and the valid
  prior \<open>beta = [[1/2, 1/2]]\<close>, the first M-step sets \<open>beta = [[1, 0]]\<close>, the next E-step
  computes \<open>0 * log 0 = nan\<close>, and the trajectory is \<open>[-log 2, nan, nan]\<close>.
\<close>

theorem iterate_trajectory_decreases:
  "EM_algo_init (fin_nd 1 1 [[1]]) 1 PyNone (PyList (fin_nd 1 1 [[2]])) (fin_nd 1 1 [[1]])
     = Inr c8_state
   \<and> iterate (Fin (1 / 1000)) 500 c8_state
     = Inr (Converged, c4_state\<lparr>ll := Some (Fin 0), ll_history := [Fin (ln 2), Fin 0],
                                zs := Some (fin_nd 1 1 [[1]])\<rparr>)
   \<and> \<not> f_le (Fin (- (1 / 10 ^ 9))) (f_sub (Fin 0) (Fin (ln 2)))
   \<and> EM_algo_init (fin_nd 1 2 [[1, 0]]) 1 PyNone PyNone (fin_nd 1 2 [[1/2, 1/2]])
     = Inr c8_zero_column_state
   \<and> iterate (Fin (1 / 1000)) 0 c8_zero_column_state
     = Inr (MaxIterationsReached, c8_nan_state [Fin (- ln 2), NaN, NaN])
   \<and> \<not> f_le (Fin (- (1 / 10 ^ 9))) (f_sub NaN (Fin (- ln 2)))"
proof -
  have "EM_algo_init (fin_nd 1 1 [[1]]) 1 PyNone (PyList (fin_nd 1 1 [[2]])) (fin_nd 1 1 [[1]])
     = Inr c8_state"
    by (simp add: EM_algo_init_def c8_state_def fin_nd_def)
  moreover have "EM_algo_init (fin_nd 1 2 [[1, 0]]) 1 PyNone PyNone (fin_nd 1 2 [[1/2, 1/2]])
     = Inr c8_zero_column_state"
    by (simp add: EM_algo_init_def c8_zero_column_state_def fin_nd_def)
  moreover have "\<not> f_le (Fin (- (1 / 10 ^ 9))) (f_sub (Fin 0) (Fin (ln 2)))"
    using ln_2_bound by (simp add: f_le_def f_sub_def)
  moreover have "\<not> f_le (Fin (- (1 / 10 ^ 9))) (f_sub NaN (Fin (- ln 2)))"
    by (simp add: f_le_def f_sub_def)
  ultimately show ?thesis using c8_run c8_zero_run by simp
qed

text \<open>
  In exact arithmetic a run of \<open>iterate\<close> from a valid fit with an empty trajectory
  returns, and every entry of its trajectory is at least the entry before it.
\<close>

lemma iterate_nondecreasing_exact:
  assumes "valid_state X n v k s rho beta" and "ll_history s = []"
  shows "\<exists>st s'. iterate tolerance max_iter s = Inr (st, s')
           \<and> (\<forall>i. Suc i < length (ll_history s') \<longrightarrow>
                 f_le (Fin 0) (f_sub (ll_history s' ! Suc i) (ll_history s' ! i))
               \<and> f_le (Fin (- (1 / 10 ^ 9))) (f_sub (ll_history s' ! Suc i) (ll_history s' ! i)))"
proof -
  from iterate_loop_sorted [OF assms(1), of "[]" tolerance max_iter 0] assms(2)
  obtain st s' hs' where
    run: "iterate tolerance max_iter s = Inr (st, s')"
    and h: "ll_history s' = map Fin hs'" and sorted: "sorted hs'"
    by (auto simp: iterate_def)
  have "f_le (Fin 0) (f_sub (ll_history s' ! Suc i) (ll_history s' ! i))
      \<and> f_le (Fin (- (1 / 10 ^ 9))) (f_sub (ll_history s' ! Suc i) (ll_history s' ! i))"
    if "Suc i < length (ll_history s')" for i
  proof -
    have i: "Suc i < length hs'" using that h by simp
    then have "hs' ! i \<le> hs' ! Suc i"
      using sorted by (intro sorted_nth_mono) simp_all
    moreover have "- (1 / 10 ^ 9) \<le> (0::real)" by simp
    ultimately have "- (1 / 10 ^ 9) \<le> hs' ! Suc i - hs' ! i" "0 \<le> hs' ! Suc i - hs' ! i"
      by linarith+
    then show ?thesis using i by (simp add: h f_le_def f_sub_def not_less)
  qed
  with run show ?thesis by blast
qed

text \<open>
  C8, amended: for every run of \<open>iterate\<close> from a valid fit with an empty trajectory (a
  non-negative count matrix in which every vocabulary term occurs in some document, \<open>rho\<close>
  and \<open>beta\<close> with positive entries, \<open>rho\<close> and the rows of \<open>beta\<close> summing to one), the
  run returns; and if at every E-step of the run every log-weight lies between \<open>-700\<close>
  and \<open>700\<close>, every entry of the trajectory is at least the entry before it: the
  difference is at least \<open>0\<close>, hence at least \<open>-1e-9\<close>. The E-step of pass \<open>m + 1\<close>
  starts from the state after \<open>m\<close> passes, \<open>EM_pairs m s\<close>, and the run makes as many
  passes as its trajectory has entries. Nothing is said of a run in which a log-weight
  leaves that range: there \<open>E_step\<close> takes \<^verbatim>\<open>np.exp\<close> of it unshifted (see C3), and in the
  notebook a responsibility underflows to \<open>0.0\<close>.
\<close>

theorem iterate_trajectory_nondecreasing:
  assumes "valid_state X n v k s rho beta" and "ll_history s = []"
  shows "\<exists>st s'. iterate tolerance max_iter s = Inr (st, s')
      \<and> ((\<forall>m<length (ll_history s'). \<exists>s_m. EM_pairs m s = Inr s_m \<and> log_weights_in_range s_m)
        \<longrightarrow> (\<forall>i. Suc i < length (ll_history s') \<longrightarrow>
                 f_le (Fin 0) (f_sub (ll_history s' ! Suc i) (ll_history s' ! i))
               \<and> f_le (Fin (- (1 / 10 ^ 9))) (f_sub (ll_history s' ! Suc i) (ll_history s' ! i))))"
  using iterate_nondecreasing_exact [OF assms, of tolerance max_iter] by blast

theorem iterate_trajectory_nondecreasing_witness:
  "iterate (Fin (1 / 1000)) 500 c8_range_state
    = Inr (Converged, c8_range_fixed
        [Fin (ln (1/4) + ln (3/4)), Fin (2 * ln (1/2)), Fin (2 * ln (1/2))])
   \<and> f_le (Fin 0) (f_sub (Fin (2 * ln (1/2))) (Fin (ln (1/4) + ln (3/4))))
   \<and> f_le (Fin (- (1 / 10 ^ 9))) (f_sub (Fin (2 * ln (1/2))) (Fin (ln (1/4) + ln (3/4))))
   \<and> f_le (Fin 0) (f_sub (Fin (2 * ln (1/2))) (Fin (2 * ln (1/2))))"
proof -
  have init: "ll_history c8_range_state = []"
    by (simp add: c8_range_state_def)
  from iterate_trajectory_nondecreasing [OF c8_range_valid init, of "Fin (1 / 1000)" 500]
  obtain st s' where run: "iterate (Fin (1 / 1000)) 500 c8_range_state = Inr (st, s')"
    and imp: "(\<forall>m<length (ll_history s').
          \<exists>s_m. EM_pairs m c8_range_state = Inr s_m \<and> log_weights_in_range s_m)
      \<longrightarrow> (\<forall>i. Suc i < length (ll_history s') \<longrightarrow>
            f_le (Fin 0) (f_sub (ll_history s' ! Suc i) (ll_history s' ! i))
          \<and> f_le (Fin (- (1 / 10 ^ 9))) (f_sub (ll_history s' ! Suc i) (ll_history s' ! i)))"
    by blast
  from run c8_range_run
  have s': "s' = c8_range_fixed
        [Fin (ln (1/4) + ln (3/4)), Fin (2 * ln (1/2)), Fin (2 * ln (1/2))]"
    by simp
  have hist: "ll_history s'
      = [Fin (ln (1/4) + ln (3/4)), Fin (2 * ln (1/2)), Fin (2 * ln (1/2))]"
    unfolding s' by (simp add: c8_range_fixed_def)
  have len: "length (ll_history s') = 3"
    unfolding hist by simp
  have "\<forall>m<length (ll_history s').
          \<exists>s_m. EM_pairs m c8_range_state = Inr s_m \<and> log_weights_in_range s_m"
    unfolding len using c8_range_pairs by blast
  with imp have all: "\<And>i. Suc i < length (ll_history s') \<Longrightarrow>
            f_le (Fin 0) (f_sub (ll_history s' ! Suc i) (ll_history s' ! i))
          \<and> f_le (Fin (- (1 / 10 ^ 9))) (f_sub (ll_history s' ! Suc i) (ll_history s' ! i))"
    by blast
  have "Suc 0 < length (ll_history s')" "Suc 1 < length (ll_history s')"
    unfolding len by simp_all
  from all [OF this(1)] all [OF this(2)] c8_range_run
  show ?thesis unfolding hist by simp
qed

end
